theory Spec2Isabelle
  imports Main "HOL-Library.AList" "HOL-Library.Sublist"
begin

section \<open>JavaScript strings and values\<close>

text \<open>
  Strings are lists of characters. A character outside ASCII is the sequence of the bytes
  of its UTF-8 encoding; the names and the ids of flows are taken to be ASCII text (their
  characters are counted and replaced one by one), a type may be any text. A property that
  may be \<^verbatim>\<open>undefined\<close> is an \<open>option\<close>. \<open>truthy\<close> is JavaScript's truthiness of such a
  property, \<open>or_else v d\<close> is \<^verbatim>\<open>v || d\<close>, and \<open>template v\<close> is what \<^verbatim>\<open>${v}\<close> prints.
\<close>

definition truthy :: "string option \<Rightarrow> bool" where
  "truthy v = (case v of None \<Rightarrow> False | Some s \<Rightarrow> s \<noteq> [])"

definition or_else :: "string option \<Rightarrow> string \<Rightarrow> string" where
  "or_else v d = (case v of None \<Rightarrow> d | Some s \<Rightarrow> if s = [] then d else s)"

definition template :: "string option \<Rightarrow> string" where
  "template v = (case v of None \<Rightarrow> ''undefined'' | Some s \<Rightarrow> s)"

text \<open>
  On a string of ASCII characters \<^verbatim>\<open>toLowerCase\<close> turns each of A to Z into its small
  letter and leaves the rest.
\<close>

definition is_ascii :: "char \<Rightarrow> bool" where
  "is_ascii c = ((of_char c :: nat) < 128)"

definition ascii_toLowerCase :: "char \<Rightarrow> char" where
  "ascii_toLowerCase c =
     (let n = (of_char c :: nat) in if 65 \<le> n \<and> n \<le> 90 then char_of (n + 32) else c)"

text \<open>The class \<^verbatim>\<open>\s\<close> of a regular expression, on ASCII.\<close>

definition is_whitespace :: "char \<Rightarrow> bool" where
  "is_whitespace c = ((of_char c :: nat) \<in> {9, 10, 11, 12, 13, 32})"

text \<open>\<^verbatim>\<open>s.trim()\<close>\<close>

definition trim :: "string \<Rightarrow> string" where
  "trim s = rev (dropWhile is_whitespace (rev (dropWhile is_whitespace s)))"

text \<open>\<^verbatim>\<open>s.replace(/\\"/g, '"')\<close>: each backslash before a double quote removed.\<close>

fun unescape_quotes :: "string \<Rightarrow> string" where
  "unescape_quotes (c # d # cs) =
     (if c = CHR 0x5C \<and> d = CHR 0x22 then d # unescape_quotes cs
      else c # unescape_quotes (d # cs))"
| "unescape_quotes cs = cs"

text \<open>\<^verbatim>\<open>s.slice(-n)\<close>: the last \<open>n\<close> characters, the whole string when it is shorter.\<close>

definition slice_last :: "nat \<Rightarrow> string \<Rightarrow> string" where
  "slice_last n s = drop (length s - n) s"

text \<open>\<^verbatim>\<open>url.replace(/\/+$/, '')\<close>: trailing slashes removed.\<close>

definition strip_trailing_slashes :: "string \<Rightarrow> string" where
  "strip_trailing_slashes s = rev (dropWhile (\<lambda>c. c = CHR ''/'') (rev s))"

fun join :: "string \<Rightarrow> string list \<Rightarrow> string" where
  "join sep [] = []"
| "join sep [x] = x"
| "join sep (x # y # ys) = x @ sep @ join sep (y # ys)"

fun startsWith :: "string \<Rightarrow> string \<Rightarrow> bool" where
  "startsWith s [] = True"
| "startsWith [] (p # ps) = False"
| "startsWith (c # cs) (p # ps) = (c = p \<and> startsWith cs ps)"

fun includes_str :: "string \<Rightarrow> string \<Rightarrow> bool" where
  "includes_str [] sub = (sub = [])"
| "includes_str (c # cs) sub = (startsWith (c # cs) sub \<or> includes_str cs sub)"

definition digit :: "nat \<Rightarrow> char" where
  "digit d = char_of (48 + d)"

text \<open>A number in a template literal: its decimal digits.\<close>

fun show_nat :: "nat \<Rightarrow> string" where
  "show_nat n = (if n < 10 then [digit n] else show_nat (n div 10) @ [digit (n mod 10)])"

declare show_nat.simps [simp del]

section \<open>Paths\<close>

text \<open>
  \<^verbatim>\<open>path.join\<close> of Node.js on POSIX: the non-empty arguments are joined with a slash
  and the result is normalised (empty and \<^verbatim>\<open>.\<close> segments dropped, \<^verbatim>\<open>..\<close> resolved
  against the segment before it).
\<close>

fun split_sep :: "char \<Rightarrow> string \<Rightarrow> string list" where
  "split_sep sep [] = [Nil]"
| "split_sep sep (c # cs) =
     (if c = sep then [] # split_sep sep cs
      else (case split_sep sep cs of
              [] \<Rightarrow> [c # Nil]
            | seg # segs \<Rightarrow> (c # seg) # segs))"

definition normalize_step :: "bool \<Rightarrow> string list \<Rightarrow> string \<Rightarrow> string list" where
  "normalize_step allowAboveRoot res seg =
     (if seg = [] \<or> seg = ''.'' then res
      else if seg = ''..'' then
        (if res \<noteq> [] \<and> last res \<noteq> ''..'' then butlast res
         else if allowAboveRoot then res @ [''..'']
         else res)
      else res @ [seg])"

definition normalizeString :: "string \<Rightarrow> bool \<Rightarrow> string" where
  "normalizeString p allowAboveRoot =
     join ''/'' (foldl (normalize_step allowAboveRoot) [] (split_sep CHR ''/'' p))"

definition isAbsolute :: "string \<Rightarrow> bool" where
  "isAbsolute p = (p \<noteq> [] \<and> hd p = CHR ''/'')"

definition path_normalize :: "string \<Rightarrow> string" where
  "path_normalize p =
     (if p = [] then ''.''
      else
        let trailingSeparator = (last p = CHR ''/'');
            q = normalizeString p (\<not> isAbsolute p)
        in if q = [] then (if isAbsolute p then ''/'' else if trailingSeparator then ''./'' else ''.'')
           else (if isAbsolute p then ''/'' else []) @ q @ (if trailingSeparator then ''/'' else []))"

definition path_join :: "string list \<Rightarrow> string" where
  "path_join args =
     (let parts = filter (\<lambda>a. a \<noteq> []) args
      in if parts = [] then ''.'' else path_normalize (join ''/'' parts))"

section \<open>Data model\<close>

text \<open>
  A flow as the remote API returns it. Only \<^verbatim>\<open>id\<close> and \<^verbatim>\<open>name\<close> are used as strings
  without a guard (\<^verbatim>\<open>id.slice\<close>, \<^verbatim>\<open>name.replace\<close>); the other properties may be absent.
\<close>

record flow =
  flow_id :: string
  flow_name :: string
  flowData :: "string option"
  updatedDate :: "string option"
  flow_type :: "string option"

text \<open>
  An entry of the state file, \<^verbatim>\<open>{ updatedDate, name, fileName, type }\<close>. The code
  has fall-backs for entries without \<^verbatim>\<open>fileName\<close> or \<^verbatim>\<open>type\<close>, so they are options.
\<close>

record entry =
  st_updatedDate :: "string option"
  st_name :: "string option"
  st_fileName :: "string option"
  st_type :: "string option"

text \<open>
  The state object: keys in insertion order. An object has each key once; that is
  \<open>distinct (map fst s)\<close>. Assigning an existing key keeps its place, a new key goes to
  the end (\<open>AList.update\<close>); \<^verbatim>\<open>delete\<close> is \<open>AList.delete\<close>; \<open>map_of s id\<close> is the property
  \<^verbatim>\<open>id\<close> of \<^verbatim>\<open>s\<close> itself, if it has one.
  (JavaScript lists keys that are canonical array indices before the others; the ids of
  the remote are not such keys, and no property below depends on the order.)
\<close>

type_synonym state = "(string \<times> entry) list"

text \<open>
  The state object is an ordinary object: its prototype is \<^verbatim>\<open>Object.prototype\<close>, whose
  properties are found by \<^verbatim>\<open>s[id]\<close> where \<^verbatim>\<open>s\<close> has no property \<^verbatim>\<open>id\<close> of its own. Each of
  them is a function, or (\<^verbatim>\<open>__proto__\<close>) the prototype itself: a value that is truthy and has
  no \<^verbatim>\<open>updatedDate\<close>.
\<close>

definition Object_prototype_names :: "string list" where
  "Object_prototype_names =
     [''constructor'', ''__defineGetter__'', ''__defineSetter__'', ''hasOwnProperty'',
      ''__lookupGetter__'', ''__lookupSetter__'', ''isPrototypeOf'', ''propertyIsEnumerable'',
      ''toString'', ''valueOf'', ''__proto__'', ''toLocaleString'']"

datatype property = Own entry | Inherited | Undefined

text \<open>\<^verbatim>\<open>s[id]\<close>\<close>

definition get_property :: "state \<Rightarrow> string \<Rightarrow> property" where
  "get_property s ident =
     (case map_of s ident of
        Some e \<Rightarrow> Own e
      | None \<Rightarrow> if ident \<in> set Object_prototype_names then Inherited else Undefined)"

text \<open>
  \<^verbatim>\<open>s[id] = e\<close>. Where \<^verbatim>\<open>s\<close> has no property \<^verbatim>\<open>__proto__\<close> of its own, assigning to
  \<^verbatim>\<open>s["__proto__"]\<close> calls the setter of \<^verbatim>\<open>Object.prototype\<close>: the prototype of \<^verbatim>\<open>s\<close>
  becomes \<^verbatim>\<open>e\<close> and \<^verbatim>\<open>s\<close> gets no property. The other names of \<^verbatim>\<open>Object.prototype\<close> are
  writable data properties, which an assignment shadows like any name.
\<close>

definition set_property :: "string \<Rightarrow> entry \<Rightarrow> state \<Rightarrow> state" where
  "set_property ident e s =
     (if ident = ''__proto__'' \<and> map_of s ident = None then s else AList.update ident e s)"

record instance_config =
  inst_name :: string
  inst_url :: string
  inst_apiKey :: string
  inst_enabled :: bool

text \<open>What \<^verbatim>\<open>syncInstanceFlows\<close> returns.\<close>

record result =
  instanceName :: string
  changedFiles :: "string list"
  movedFiles :: "string list"
  stateFile :: string

section \<open>The world outside the process\<close>

datatype level = Log | Warn | Error

type_synonym console = "(level \<times> string) list"

datatype command =
    GitRevParse
  | GitInit
  | GitCheckoutMain
  | GitConfig string string
  | GitConfigGlobal string string
  | GitAdd string
  | GitCommit string
  | GitRemoteGetUrl string
  | GitRemoteSetUrl string string
  | GitRemoteAdd string string
  | GitLsRemoteHeads string string
  | GitFetch string
  | GitResetHard string
  | GitMv string string
  | GitPush

text \<open>The command line that \<^verbatim>\<open>runCommand\<close> receives.\<close>

fun render :: "command \<Rightarrow> string" where
  "render GitRevParse = ''git rev-parse --is-inside-work-tree''"
| "render GitInit = ''git init''"
| "render GitCheckoutMain = ''git checkout -B main''"
| "render (GitConfig k v) = ''git config '' @ k @ '' \"'' @ v @ ''\"''"
| "render (GitRemoteGetUrl r) = ''git remote get-url '' @ r"
| "render (GitRemoteSetUrl r url) = ''git remote set-url '' @ r @ '' '' @ url"
| "render (GitRemoteAdd r url) = ''git remote add '' @ r @ '' '' @ url"
| "render (GitLsRemoteHeads r b) = ''git ls-remote --heads '' @ r @ '' '' @ b"
| "render (GitFetch r) = ''git fetch '' @ r"
| "render (GitResetHard ref) = ''git reset --hard '' @ ref"
| "render (GitMv src dst) = ''git mv \"'' @ src @ ''\" \"'' @ dst @ ''\"''"
| "render (GitConfigGlobal k v) = ''git config --global '' @ k @ '' \"'' @ v @ ''\"''"
| "render (GitAdd files) = ''git add '' @ files"
| "render (GitCommit msg) = ''git commit -m \"'' @ msg @ ''\"''"
| "render GitPush = ''git push -u origin main''"

datatype error =
    FetchError string
  | ApiError string
  | SyntaxError string
  | TypeError string
  | IOError string
  | CommandError string string
  | JsError string
  | ProcessExit nat

text \<open>
  \<^verbatim>\<open>error.message\<close>. The wording of the messages of the platform (a failed file-system
  call, a failed \<^verbatim>\<open>git mv\<close>) stands for whatever the platform prints there.
\<close>

fun message :: "error \<Rightarrow> string" where
  "message (FetchError m) = m"
| "message (ApiError m) = m"
| "message (SyntaxError m) = m"
| "message (TypeError m) = m"
| "message (IOError p) = ''EIO: i/o error, '' @ p"
| "message (CommandError cmd stderr) = ''Command failed: '' @ cmd @ [CHR 0x0A] @ stderr"
| "message (JsError m) = m"
| "message (ProcessExit code) = []"

text \<open>
  The content of a state file: the JSON text of a state object (what \<^verbatim>\<open>saveState\<close>
  writes and \<^verbatim>\<open>JSON.parse\<close> reads back), or text that is not JSON.
\<close>

datatype stored = StateJson state | NotJson string

text \<open>
  What \<^verbatim>\<open>fetch\<close> gives: it rejects, or there is a response with a status, a body
  and, when the body is the JSON text of a list of flows, that list.
\<close>

datatype fetched = Rejected string | Http nat string "flow list option"

text \<open>
  The world: the files of the working tree other than the state files (path to content;
  every file is under version control), the state files, the git commands that have
  succeeded, whether the directory of the program is inside a git work tree, and the
  remotes of the repository with their urls. Then what the process cannot change: what the
  remote instances answer, the paths on which file-system calls fail, the git commands
  (other than \<^verbatim>\<open>git mv\<close>) that fail whatever the repository is like, with their standard
  error, what \<^verbatim>\<open>git ls-remote --heads\<close> prints for a remote and a branch, the files and
  state files at \<^verbatim>\<open>origin/main\<close>, and what \<^verbatim>\<open>new Date().toLocaleString()\<close> gives.
\<close>

record world =
  tree :: "string \<rightharpoonup> string"
  stateFiles :: "string \<rightharpoonup> stored"
  executed :: "command list"
  is_repo :: bool
  remotes :: "string \<rightharpoonup> string"
  remote :: "string \<Rightarrow> string \<Rightarrow> fetched"
  io_fails :: "string \<Rightarrow> bool"
  cmd_fails :: "command \<rightharpoonup> string"
  remote_heads :: "string \<Rightarrow> string \<Rightarrow> string"
  origin_main :: "(string \<rightharpoonup> string) \<times> (string \<rightharpoonup> stored)"
  now :: string

text \<open>
  The constants of the program and the functions of the platform that are not spelt out
  here: \<^verbatim>\<open>REPO_PATH\<close> (\<^verbatim>\<open>__dirname\<close>); the variables \<^verbatim>\<open>GIT_REMOTE_URL\<close> and
  \<^verbatim>\<open>FLOWISE_INSTANCES_JSON\<close> of the environment; \<^verbatim>\<open>JSON.parse\<close> on the text of the
  configuration, which gives a list of instances, \<open>None\<close> where it throws;
  \<^verbatim>\<open>s \<mapsto> JSON.stringify(JSON.parse(s), null, 4)\<close>, \<open>None\<close> where \<^verbatim>\<open>JSON.parse\<close> throws; and
  \<^verbatim>\<open>String.prototype.toLowerCase\<close> on the strings that are not ASCII (the case mapping of
  Unicode, which depends on the context of a letter).
\<close>

record env =
  REPO_PATH :: string
  GIT_REMOTE_URL :: "string option"
  FLOWISE_INSTANCES_JSON :: "string option"
  parse_instances :: "string \<Rightarrow> instance_config list option"
  json_indent4 :: "string \<Rightarrow> string option"
  platform_toLowerCase :: "string \<Rightarrow> string"

text \<open>\<^verbatim>\<open>s.toLowerCase()\<close>\<close>

definition toLowerCase :: "env \<Rightarrow> string \<Rightarrow> string" where
  "toLowerCase E s =
     (if list_all is_ascii s then map ascii_toLowerCase s else platform_toLowerCase E s)"

section \<open>Effects\<close>

text \<open>
  An asynchronous function is a function of the world that gives the value it resolves
  to or the error it rejects with, the world it leaves, and the console lines it printed.
  The world it leaves is there after a rejection too: what was written stays written.
\<close>

type_synonym 'a io = "world \<Rightarrow> (error + 'a) \<times> world \<times> console"

definition returnIO :: "'a \<Rightarrow> 'a io" where
  "returnIO x = (\<lambda>w. (Inr x, w, []))"

definition throwIO :: "error \<Rightarrow> 'a io" where
  "throwIO e = (\<lambda>w. (Inl e, w, []))"

definition bindIO :: "'a io \<Rightarrow> ('a \<Rightarrow> 'b io) \<Rightarrow> 'b io" where
  "bindIO m f =
     (\<lambda>w. case m w of
            (Inl e, w1, l1) \<Rightarrow> (Inl e, w1, l1)
          | (Inr x, w1, l1) \<Rightarrow> (case f x w1 of (r, w2, l2) \<Rightarrow> (r, w2, l1 @ l2)))"

definition thenIO :: "'a io \<Rightarrow> 'b io \<Rightarrow> 'b io" where
  "thenIO m k = bindIO m (\<lambda>_. k)"

definition catchIO :: "'a io \<Rightarrow> (error \<Rightarrow> 'a io) \<Rightarrow> 'a io" where
  "catchIO m h =
     (\<lambda>w. case m w of
            (Inl e, w1, l1) \<Rightarrow> (case h e w1 of (r, w2, l2) \<Rightarrow> (r, w2, l1 @ l2))
          | (Inr x, w1, l1) \<Rightarrow> (Inr x, w1, l1))"

definition console_print :: "level \<Rightarrow> string \<Rightarrow> unit io" where
  "console_print lvl s = (\<lambda>w. (Inr (), w, [(lvl, s)]))"

definition fs_mkdir :: "string \<Rightarrow> unit io" where
  "fs_mkdir dir = (\<lambda>w. if io_fails w dir then (Inl (IOError dir), w, []) else (Inr (), w, []))"

definition fs_writeFile :: "string \<Rightarrow> string \<Rightarrow> unit io" where
  "fs_writeFile p content =
     (\<lambda>w. if io_fails w p then (Inl (IOError p), w, [])
          else (Inr (), w\<lparr>tree := (tree w)(p \<mapsto> content)\<rparr>, []))"

definition fs_writeFile_state :: "string \<Rightarrow> stored \<Rightarrow> unit io" where
  "fs_writeFile_state p content =
     (\<lambda>w. if io_fails w p then (Inl (IOError p), w, [])
          else (Inr (), w\<lparr>stateFiles := (stateFiles w)(p \<mapsto> content)\<rparr>, []))"

definition fs_readFile_state :: "string \<Rightarrow> stored io" where
  "fs_readFile_state p =
     (\<lambda>w. case stateFiles w p of
            None \<Rightarrow> (Inl (IOError p), w, [])
          | Some content \<Rightarrow> (Inr content, w, []))"

definition JSON_parse_state :: "stored \<Rightarrow> state io" where
  "JSON_parse_state content =
     (case content of StateJson s \<Rightarrow> returnIO s | NotJson t \<Rightarrow> throwIO (SyntaxError t))"

text \<open>
  What git does with a command: it fails with its standard error, or succeeds with its
  standard output and a new world. \<^verbatim>\<open>git mv\<close> fails when the source is not in the tree or
  the destination is; else the file goes from the one path to the other. Any other command
  fails where the world says so. Otherwise \<^verbatim>\<open>git rev-parse\<close> succeeds inside a work tree,
  \<^verbatim>\<open>git init\<close> makes one, the commands on a remote read and set its url,
  \<^verbatim>\<open>git reset --hard origin/main\<close> makes the tree and the state files those of
  \<^verbatim>\<open>origin/main\<close>, and the rest succeed.
\<close>

definition git_mv_stderr :: "bool \<Rightarrow> string \<Rightarrow> string \<Rightarrow> string" where
  "git_mv_stderr source_exists src dst =
     (if source_exists then ''fatal: destination exists, source='' else ''fatal: bad source, source='')
     @ src @ '', destination='' @ dst"

definition git_effect :: "command \<Rightarrow> world \<Rightarrow> string + string \<times> world" where
  "git_effect cmd w =
     (case cmd of
        GitRevParse \<Rightarrow>
          if is_repo w then Inr (''true'', w)
          else Inl ''fatal: not a git repository (or any of the parent directories): .git''
      | GitInit \<Rightarrow> Inr ([], w\<lparr>is_repo := True\<rparr>)
      | GitRemoteGetUrl r \<Rightarrow>
          (case remotes w r of
             None \<Rightarrow> Inl (''error: No such remote '' @ r)
           | Some url \<Rightarrow> Inr (url, w))
      | GitRemoteSetUrl r url \<Rightarrow>
          (case remotes w r of
             None \<Rightarrow> Inl (''error: No such remote '' @ r)
           | Some old \<Rightarrow> Inr ([], w\<lparr>remotes := (remotes w)(r \<mapsto> url)\<rparr>))
      | GitRemoteAdd r url \<Rightarrow>
          (case remotes w r of
             None \<Rightarrow> Inr ([], w\<lparr>remotes := (remotes w)(r \<mapsto> url)\<rparr>)
           | Some old \<Rightarrow> Inl (''error: remote '' @ r @ '' already exists.''))
      | GitLsRemoteHeads r b \<Rightarrow>
          (case remotes w r of
             None \<Rightarrow> Inl (''fatal: '' @ r @ '' does not appear to be a git repository'')
           | Some url \<Rightarrow> Inr (remote_heads w r b, w))
      | GitResetHard ref \<Rightarrow>
          Inr ([], w\<lparr>tree := fst (origin_main w), stateFiles := snd (origin_main w)\<rparr>)
      | _ \<Rightarrow> Inr ([], w))"

definition git :: "command \<Rightarrow> world \<Rightarrow> string + string \<times> world" where
  "git cmd w =
     (case cmd of
        GitMv src dst \<Rightarrow>
          (case tree w src of
             None \<Rightarrow> Inl (git_mv_stderr False src dst)
           | Some content \<Rightarrow>
               if tree w dst \<noteq> None
               then Inl (git_mv_stderr True src dst)
               else Inr ([], w\<lparr>tree := (tree w)(src := None, dst \<mapsto> content),
                               executed := executed w @ [cmd]\<rparr>))
      | _ \<Rightarrow>
          (case cmd_fails w cmd of
             Some stderr \<Rightarrow> Inl stderr
           | None \<Rightarrow>
               (case git_effect cmd w of
                  Inl stderr \<Rightarrow> Inl stderr
                | Inr (stdout, w') \<Rightarrow> Inr (stdout, w'\<lparr>executed := executed w' @ [cmd]\<rparr>))))"

text \<open>\<^verbatim>\<open>runCommand\<close> resolves to the standard output, trimmed.\<close>

definition runCommand :: "command \<Rightarrow> bool \<Rightarrow> string io" where
  "runCommand cmd suppressErrors =
     (\<lambda>w. case git cmd w of
            Inl stderr \<Rightarrow>
              (Inl (CommandError (render cmd) stderr), w,
               if suppressErrors then [] else [(Error, ''Command failed: '' @ stderr)])
          | Inr (stdout, w') \<Rightarrow> (Inr (trim stdout), w', []))"

definition fetch :: "string \<Rightarrow> string \<Rightarrow> (nat \<times> string \<times> flow list option) io" where
  "fetch url apiKey =
     (\<lambda>w. case remote w url apiKey of
            Rejected m \<Rightarrow> (Inl (FetchError m), w, [])
          | Http status body parsed \<Rightarrow> (Inr (status, body, parsed), w, []))"

section \<open>The state store\<close>

definition stateFile_name :: "string \<Rightarrow> string" where
  "stateFile_name instName = ''.flow_state_'' @ instName @ ''.json''"

text \<open>The local \<^verbatim>\<open>stateFile\<close> of \<^verbatim>\<open>getLastKnownState\<close> and of \<^verbatim>\<open>saveState\<close>.\<close>

definition state_path :: "env \<Rightarrow> string \<Rightarrow> string" where
  "state_path E instName = path_join [REPO_PATH E, stateFile_name instName]"

definition getLastKnownState :: "env \<Rightarrow> string \<Rightarrow> state io" where
  "getLastKnownState E instName =
     catchIO
       (bindIO (fs_readFile_state (state_path E instName)) JSON_parse_state)
       (\<lambda>_. returnIO [])"

definition saveState :: "env \<Rightarrow> state \<Rightarrow> string \<Rightarrow> unit io" where
  "saveState E st instName = fs_writeFile_state (state_path E instName) (StateJson st)"

section \<open>Reconciliation of one instance\<close>

definition instanceDir :: "env \<Rightarrow> instance_config \<Rightarrow> string" where
  "instanceDir E inst = path_join [REPO_PATH E, ''flows'', inst_name inst]"

definition flowType :: "env \<Rightarrow> flow \<Rightarrow> string" where
  "flowType E f = toLowerCase E (or_else (flow_type f) ''uncategorized'')"

definition typeDir :: "env \<Rightarrow> instance_config \<Rightarrow> flow \<Rightarrow> string" where
  "typeDir E inst f = path_join [instanceDir E inst, flowType E f]"

definition safeName :: "flow \<Rightarrow> string" where
  "safeName f =
     map (\<lambda>c. if is_whitespace c \<or> c = CHR ''/'' then CHR ''_'' else c) (flow_name f)"

definition uniqueFileName :: "flow \<Rightarrow> string" where
  "uniqueFileName f = safeName f @ ''_id_'' @ slice_last 4 (flow_id f) @ ''.json''"

text \<open>\<^verbatim>\<open>!lastState[id] || lastState[id].updatedDate !== updatedDate\<close>\<close>

definition change_detected :: "state \<Rightarrow> flow \<Rightarrow> bool" where
  "change_detected lastState f =
     (case get_property lastState (flow_id f) of
        Undefined \<Rightarrow> True
      | Inherited \<Rightarrow> None \<noteq> updatedDate f
      | Own e \<Rightarrow> st_updatedDate e \<noteq> updatedDate f)"

definition changedFile :: "env \<Rightarrow> instance_config \<Rightarrow> flow \<Rightarrow> string" where
  "changedFile E inst f = ''flows/'' @ inst_name inst @ ''/'' @ flowType E f @ ''/'' @ uniqueFileName f"

definition new_entry :: "env \<Rightarrow> flow \<Rightarrow> entry" where
  "new_entry E f =
     \<lparr>st_updatedDate = updatedDate f, st_name = Some (safeName f),
      st_fileName = Some (uniqueFileName f), st_type = Some (flowType E f)\<rparr>"

definition change_line :: "env \<Rightarrow> flow \<Rightarrow> level \<times> string" where
  "change_line E f =
     (Log, ''    -> Change detected in flow: '' @ [CHR 0x27] @ flow_name f @ [CHR 0x27]
           @ '' (Type: '' @ flowType E f @ '', Saving to '' @ uniqueFileName f @ '')'')"

text \<open>
  The body of the loop over the flows. Its accumulator is \<^verbatim>\<open>changedFiles\<close> and
  \<^verbatim>\<open>currentState\<close>.
\<close>

definition process_flow ::
  "env \<Rightarrow> instance_config \<Rightarrow> state \<Rightarrow> flow \<Rightarrow> string list \<times> state \<Rightarrow> (string list \<times> state) io" where
  "process_flow E inst lastState f acc =
     (if \<not> truthy (flowData f) then returnIO acc
      else
        bindIO (fs_mkdir (typeDir E inst f)) (\<lambda>_.
        bindIO
          (if change_detected lastState f
           then
             thenIO
               (console_print (fst (change_line E f)) (snd (change_line E f)))
               (case json_indent4 E (or_else (flowData f) []) of
                  None \<Rightarrow> throwIO (SyntaxError (or_else (flowData f) []))
                | Some formattedFlowData \<Rightarrow>
                    thenIO
                      (fs_writeFile (path_join [typeDir E inst f, uniqueFileName f])
                         formattedFlowData)
                      (returnIO (fst acc @ [changedFile E inst f])))
           else returnIO (fst acc))
          (\<lambda>changed. returnIO (changed, set_property (flow_id f) (new_entry E f) (snd acc)))))"

fun flows_loop ::
  "env \<Rightarrow> instance_config \<Rightarrow> state \<Rightarrow> flow list \<Rightarrow> string list \<times> state \<Rightarrow> (string list \<times> state) io" where
  "flows_loop E inst lastState [] acc = returnIO acc"
| "flows_loop E inst lastState (f # fs) acc =
     bindIO (process_flow E inst lastState f acc) (flows_loop E inst lastState fs)"

definition fileNameToMove :: "string \<Rightarrow> entry \<Rightarrow> string" where
  "fileNameToMove ident flowState =
     or_else (st_fileName flowState)
       (template (st_name flowState) @ ''_id_'' @ slice_last 4 ident @ ''.json'')"

definition sourceTypeDir :: "env \<Rightarrow> instance_config \<Rightarrow> entry \<Rightarrow> string" where
  "sourceTypeDir E inst flowState =
     path_join [instanceDir E inst, or_else (st_type flowState) ''uncategorized'']"

definition sourcePath :: "env \<Rightarrow> instance_config \<Rightarrow> string \<Rightarrow> entry \<Rightarrow> string" where
  "sourcePath E inst ident flowState =
     path_join [sourceTypeDir E inst flowState, fileNameToMove ident flowState]"

definition deletedDir :: "env \<Rightarrow> instance_config \<Rightarrow> entry \<Rightarrow> string" where
  "deletedDir E inst flowState = path_join [sourceTypeDir E inst flowState, ''deleted'']"

definition destinationPath :: "env \<Rightarrow> instance_config \<Rightarrow> string \<Rightarrow> entry \<Rightarrow> string" where
  "destinationPath E inst ident flowState =
     path_join [deletedDir E inst flowState, fileNameToMove ident flowState]"

definition archiving_line :: "string \<Rightarrow> entry \<Rightarrow> level \<times> string" where
  "archiving_line ident flowState =
     (Log, ''    -> Archiving deleted flow: '' @ [CHR 0x27] @ fileNameToMove ident flowState
           @ [CHR 0x27] @ '' from '' @ template (st_type flowState) @ '' folder'')"

definition could_not_archive_line :: "string \<Rightarrow> entry \<Rightarrow> level \<times> string" where
  "could_not_archive_line ident flowState =
     (Warn, ''    -> Could not archive '' @ fileNameToMove ident flowState
            @ '', it may have been manually removed.'')"

text \<open>
  The body of the loop over the ids of the last state, for an id that the remote no
  longer has. Its accumulator is \<^verbatim>\<open>movedFiles\<close> and \<^verbatim>\<open>currentState\<close>.
\<close>

definition archive_flow ::
  "env \<Rightarrow> instance_config \<Rightarrow> state \<Rightarrow> string \<Rightarrow> string list \<times> state \<Rightarrow> (string list \<times> state) io" where
  "archive_flow E inst lastState ident acc =
     (case map_of lastState ident of
        None \<Rightarrow> throwIO (TypeError ''Cannot read properties of undefined'')
      | Some flowState \<Rightarrow>
          thenIO
            (console_print (fst (archiving_line ident flowState))
               (snd (archiving_line ident flowState)))
            (catchIO
               (thenIO (fs_mkdir (deletedDir E inst flowState))
                  (thenIO
                     (runCommand
                        (GitMv (sourcePath E inst ident flowState)
                           (destinationPath E inst ident flowState))
                        False)
                     (returnIO
                        (fst acc @ [destinationPath E inst ident flowState],
                         AList.delete ident (snd acc)))))
               (\<lambda>moveError.
                  thenIO
                    (console_print (fst (could_not_archive_line ident flowState))
                       (snd (could_not_archive_line ident flowState)))
                    (returnIO (fst acc, AList.delete ident (snd acc))))))"

fun archive_loop ::
  "env \<Rightarrow> instance_config \<Rightarrow> state \<Rightarrow> string set \<Rightarrow> string list \<Rightarrow> string list \<times> state
     \<Rightarrow> (string list \<times> state) io" where
  "archive_loop E inst lastState currentFlowIds [] acc = returnIO acc"
| "archive_loop E inst lastState currentFlowIds (ident # ids) acc =
     (if ident \<in> currentFlowIds then archive_loop E inst lastState currentFlowIds ids acc
      else bindIO (archive_flow E inst lastState ident acc)
             (archive_loop E inst lastState currentFlowIds ids))"

text \<open>
  Lines 125 to 178 of \<^verbatim>\<open>syncInstanceFlows\<close>: both iterations, from the flows and the last
  state to \<^verbatim>\<open>changedFiles\<close>, \<^verbatim>\<open>movedFiles\<close> and \<^verbatim>\<open>currentState\<close>.
\<close>

definition reconcile ::
  "env \<Rightarrow> instance_config \<Rightarrow> flow list \<Rightarrow> state \<Rightarrow> (string list \<times> string list \<times> state) io" where
  "reconcile E inst flows lastState =
     bindIO (flows_loop E inst lastState flows ([], lastState)) (\<lambda>(changed, currentState).
     bindIO
       (archive_loop E inst lastState (set (map flow_id flows)) (map fst lastState)
          ([], currentState))
       (\<lambda>(moved, currentState'). returnIO (changed, moved, currentState')))"

definition apiUrl :: "instance_config \<Rightarrow> string" where
  "apiUrl inst = strip_trailing_slashes (inst_url inst) @ ''/api/v1/chatflows''"

definition syncing_line :: "instance_config \<Rightarrow> level \<times> string" where
  "syncing_line inst =
     (Log, ''  -> Syncing flows from instance: '' @ inst_name inst @ '' ('' @ inst_url inst @ '')'')"

definition updated_line :: "instance_config \<Rightarrow> string list \<Rightarrow> string list \<Rightarrow> level \<times> string" where
  "updated_line inst changed moved =
     (Log, ''    -> '' @ show_nat (length changed) @ '' flows updated, ''
           @ show_nat (length moved) @ '' flows archived for '' @ inst_name inst)"

definition no_changes_line :: "instance_config \<Rightarrow> level \<times> string" where
  "no_changes_line inst = (Log, ''    -> No changes detected for '' @ inst_name inst)"

definition syncInstanceFlows :: "env \<Rightarrow> instance_config \<Rightarrow> result io" where
  "syncInstanceFlows E inst =
     thenIO
       (console_print (fst (syncing_line inst)) (snd (syncing_line inst)))
       (bindIO
          (fetch (apiUrl inst) (inst_apiKey inst))
          (\<lambda>(status, rawBody, parsed).
             if \<not> (200 \<le> status \<and> status \<le> 299) then
               thenIO
                 (console_print Error
                    (''  -> API response error for '' @ inst_name inst @ '': '' @ rawBody))
                 (throwIO
                    (ApiError
                       (''API request failed for '' @ inst_name inst @ '' with status ''
                        @ show_nat status @ '': '' @ rawBody)))
             else
               (case parsed of
                  None \<Rightarrow>
                    thenIO
                      (console_print Error
                         (''  -> API did not return valid JSON for '' @ inst_name inst
                          @ ''. Response was: '' @ rawBody))
                      (throwIO (SyntaxError rawBody))
                | Some flows \<Rightarrow>
                    bindIO (getLastKnownState E (inst_name inst)) (\<lambda>lastState.
                    bindIO (reconcile E inst flows lastState) (\<lambda>(changed, moved, currentState).
                    thenIO
                      (if length changed > 0 \<or> length moved > 0 then
                         thenIO (saveState E currentState (inst_name inst))
                           (console_print (fst (updated_line inst changed moved))
                              (snd (updated_line inst changed moved)))
                       else
                         console_print (fst (no_changes_line inst)) (snd (no_changes_line inst)))
                      (returnIO
                         \<lparr>instanceName = inst_name inst, changedFiles = changed,
                          movedFiles = moved,
                          stateFile = stateFile_name (inst_name inst)\<rparr>))))))"

section \<open>The sweep over the instances\<close>

text \<open>
  The body of the loop over the instances, with its \<^verbatim>\<open>try\<close> and \<^verbatim>\<open>catch\<close>. The
  accumulator is \<^verbatim>\<open>allChangedFiles\<close>, \<^verbatim>\<open>allMovedFiles\<close> and \<^verbatim>\<open>allStateFiles\<close>.
\<close>

definition sync_instance ::
  "env \<Rightarrow> instance_config \<Rightarrow> string list \<times> string list \<times> string list
     \<Rightarrow> (string list \<times> string list \<times> string list) io" where
  "sync_instance E inst acc =
     catchIO
       (bindIO (syncInstanceFlows E inst) (\<lambda>res.
          returnIO
            (fst acc @ changedFiles res,
             fst (snd acc) @ movedFiles res,
             if length (changedFiles res) > 0 \<or> length (movedFiles res) > 0
             then snd (snd acc) @ [stateFile res] else snd (snd acc))))
       (\<lambda>err.
          thenIO
            (console_print Error
               (''  -> Failed to sync instance '' @ inst_name inst @ '': '' @ message err))
            (returnIO acc))"

fun instances_loop ::
  "env \<Rightarrow> instance_config list \<Rightarrow> string list \<times> string list \<times> string list
     \<Rightarrow> (string list \<times> string list \<times> string list) io" where
  "instances_loop E [] acc = returnIO acc"
| "instances_loop E (inst # insts) acc =
     bindIO (sync_instance E inst acc) (instances_loop E insts)"

text \<open>Lines 258 to 261 of \<^verbatim>\<open>syncFlows\<close>.\<close>

definition commitMessage :: "string list \<Rightarrow> string list \<Rightarrow> string" where
  "commitMessage allChangedFiles allMovedFiles =
     ''Sync: ''
     @ join '', ''
         ((if length allChangedFiles > 0
           then [show_nat (length allChangedFiles) @ '' updated''] else [])
          @ (if length allMovedFiles > 0
             then [show_nat (length allMovedFiles) @ '' archived''] else []))
     @ '' flow(s)''"

text \<open>Lines 265 to 286: the push, and what is printed when it fails.\<close>

definition push_stage :: "env \<Rightarrow> unit io" where
  "push_stage E =
     thenIO (console_print Log ''  -> Pushing to remote repository...'')
       (catchIO
          (thenIO (runCommand GitPush True)
             (console_print Log ''  -> Multi-instance sync successful!''))
          (\<lambda>pushError.
             if includes_str (toLowerCase E (message pushError))
                  ''origin does not appear to be a git repository''
                \<or> includes_str (toLowerCase E (message pushError))
                     ''could not read from remote repository''
                \<or> includes_str (toLowerCase E (message pushError)) ''permission denied''
                \<or> includes_str (toLowerCase E (message pushError)) ''denied to''
                \<or> includes_str (toLowerCase E (message pushError)) ''unable to access''
                \<or> includes_str (toLowerCase E (message pushError)) ''error: 403''
             then
               thenIO
                 (console_print Error
                    (''Error: No valid git remote configured or you do not have permission ''
                     @ ''to push. Set GIT_REMOTE_URL in your .env file or add a remote manually.''))
                 (console_print Log
                    (''Your flows have still been saved locally and are up to date ''
                     @ ''on your machine.''))
             else
               console_print Error
                 (''  -> Git push process failed: '' @ message pushError)))"

text \<open>Lines 247 to 292: the commit of what the sweep has changed.\<close>

definition commit_stage ::
  "env \<Rightarrow> string list \<Rightarrow> string list \<Rightarrow> string list \<Rightarrow> unit io" where
  "commit_stage E allChangedFiles allMovedFiles allStateFiles =
     (if length allChangedFiles > 0 \<or> length allMovedFiles > 0 then
        catchIO
          (thenIO (console_print Log ''  -> Committing changes...'')
          (thenIO (runCommand (GitConfigGlobal ''user.name'' ''FlowSync Bot'') False)
          (thenIO (runCommand (GitConfigGlobal ''user.email'' ''bot@flowsync.io'') False)
          (thenIO
             (if trim (join '' '' (allChangedFiles @ allStateFiles)) \<noteq> []
              then thenIO
                     (runCommand (GitAdd (join '' '' (allChangedFiles @ allStateFiles))) False)
                     (returnIO ())
              else returnIO ())
          (thenIO (runCommand (GitCommit (commitMessage allChangedFiles allMovedFiles)) False)
             (push_stage E))))))
          (\<lambda>err. console_print Error (''Error: '' @ message err))
      else console_print Log ''  -> No changes detected across all instances.'')"

text \<open>Lines 221 to 292: the sweep proper, for the enabled instances.\<close>

definition sync_and_commit :: "env \<Rightarrow> instance_config list \<Rightarrow> unit io" where
  "sync_and_commit E instances =
     (if length instances = 0 then
        console_print Log ''  -> No enabled instances found. Please check your configuration.''
      else
        thenIO
          (console_print Log
             (''  -> Found '' @ show_nat (length instances) @ '' enabled instance(s): ''
              @ join '', '' (map inst_name instances)))
          (thenIO (fs_mkdir (path_join [REPO_PATH E, ''flows'']))
             (bindIO (instances_loop E instances ([], [], []))
                (\<lambda>(allChangedFiles, allMovedFiles, allStateFiles).
                   commit_stage E allChangedFiles allMovedFiles allStateFiles))))"

section \<open>The repository, its remote and the configuration\<close>

definition README_warning :: string where
  "README_warning =
     ''# Automated FlowSync Backup Repository\<newline>\<newline>''
     @ ''**This repository is managed automatically by the FlowSync service.**\<newline>\<newline>''
     @ ''All files and their history are generated based on the state of your configured ''
     @ ''Flowise instances. Manual changes made directly to this repository will be ''
     @ ''overwritten on the next sync cycle.\<newline>\<newline>''
     @ ''To modify a flow, please use the Flowise UI. FlowSync will detect the change and ''
     @ ''commit the new version automatically.\<newline>''"

definition ensureGitRepo :: "env \<Rightarrow> unit io" where
  "ensureGitRepo E =
     catchIO
       (thenIO (runCommand GitRevParse True) (returnIO ()))
       (\<lambda>_.
          thenIO (console_print Log ''  -> Initializing git repository...'')
          (thenIO (runCommand GitInit False)
          (thenIO (runCommand GitCheckoutMain False)
          (thenIO (fs_writeFile (path_join [REPO_PATH E, ''README.md'']) README_warning)
          (thenIO (runCommand (GitConfig ''user.name'' ''FlowSync Bot'') False)
          (thenIO (runCommand (GitConfig ''user.email'' ''bot@flowsync.io'') False)
          (thenIO (runCommand (GitAdd ''README.md'') False)
          (thenIO (runCommand (GitCommit ''Add README warning for manual edits'') False)
             (returnIO ())))))))))"

definition ensureGitRemote :: "env \<Rightarrow> unit io" where
  "ensureGitRemote E =
     (if \<not> truthy (GIT_REMOTE_URL E) then
        console_print Warn
          ''  -> No GIT_REMOTE_URL configured. Using existing remote or add one manually.''
      else
        catchIO
          (bindIO (runCommand (GitRemoteGetUrl ''origin'') True) (\<lambda>currentRemote.
             if currentRemote \<noteq> or_else (GIT_REMOTE_URL E) [] then
               thenIO
                 (console_print Log ''  -> Updating git remote origin to use GIT_REMOTE_URL'')
                 (thenIO
                    (runCommand (GitRemoteSetUrl ''origin'' (or_else (GIT_REMOTE_URL E) []))
                       False)
                    (returnIO ()))
             else returnIO ()))
          (\<lambda>_.
             thenIO
               (console_print Log ''  -> Setting git remote origin from GIT_REMOTE_URL'')
               (thenIO
                  (runCommand (GitRemoteAdd ''origin'' (or_else (GIT_REMOTE_URL E) [])) False)
                  (returnIO ()))))"

definition remoteHasBranch :: "string \<Rightarrow> string \<Rightarrow> bool io" where
  "remoteHasBranch r branch =
     catchIO
       (thenIO (runCommand GitRevParse True)
       (thenIO (runCommand (GitRemoteGetUrl r) True)
       (bindIO (runCommand (GitLsRemoteHeads r branch) True) (\<lambda>out.
          returnIO (out \<noteq> [] \<and> length (trim out) > 0)))))
       (\<lambda>_. returnIO False)"

text \<open>
  \<^verbatim>\<open>loadInstancesConfig\<close> reads the environment only: it is a function of it, to the error
  thrown or the enabled instances.
\<close>

definition loadInstancesConfig :: "env \<Rightarrow> error + instance_config list" where
  "loadInstancesConfig E =
     (if \<not> truthy (FLOWISE_INSTANCES_JSON E) then
        Inl (JsError ''FLOWISE_INSTANCES_JSON env variable is required.'')
      else
        (case parse_instances E
                (if includes_str (or_else (FLOWISE_INSTANCES_JSON E) []) [CHR 0x5C, CHR 0x22]
                 then unescape_quotes (or_else (FLOWISE_INSTANCES_JSON E) [])
                 else or_else (FLOWISE_INSTANCES_JSON E) []) of
           None \<Rightarrow> Inl (JsError ''FLOWISE_INSTANCES_JSON env is not valid JSON.'')
         | Some instances \<Rightarrow>
             if length (filter inst_enabled instances) = 0 then
               Inl
                 (JsError
                    (''No enabled instances found in configuration. ''
                     @ ''Please enable at least one instance.''))
             else Inr (filter inst_enabled instances)))"

text \<open>
  Lines 202 to 212 of \<^verbatim>\<open>syncFlows\<close>: the reset to the head of the remote. It resolves to
  whether the cycle goes on.
\<close>

definition pre_sync :: "bool io" where
  "pre_sync =
     catchIO
       (bindIO (remoteHasBranch ''origin'' ''main'') (\<lambda>hasMain.
          if hasMain then
            thenIO
              (console_print Log
                 (''  -> Fetching and resetting to latest remote state ''
                  @ ''to ensure consistency...''))
              (thenIO (runCommand (GitFetch ''origin'') False)
              (thenIO (runCommand (GitResetHard ''origin/main'') False)
                 (returnIO True)))
          else returnIO True))
       (\<lambda>err.
          thenIO
            (console_print Error
               (''  -> CRITICAL: Pre-sync with remote failed: '' @ message err
                @ ''. Aborting this cycle.''))
            (returnIO False))"

text \<open>
  Lines 214 to 220: the configuration is loaded; where that throws, the error is printed
  and \<^verbatim>\<open>process.exit(1)\<close> ends the process.
\<close>

definition load_instances_or_exit :: "env \<Rightarrow> instance_config list io" where
  "load_instances_or_exit E =
     catchIO (\<lambda>w. (loadInstancesConfig E, w, []))
       (\<lambda>err. thenIO (console_print Error (''Error: '' @ message err)) (throwIO (ProcessExit 1)))"

definition starting_line :: "world \<Rightarrow> level \<times> string" where
  "starting_line w = (Log, ''['' @ now w @ ''] Starting multi-instance flow sync check...'')"

definition syncFlows :: "env \<Rightarrow> unit io" where
  "syncFlows E =
     thenIO (\<lambda>w. console_print (fst (starting_line w)) (snd (starting_line w)) w)
     (thenIO (ensureGitRepo E)
     (thenIO (ensureGitRemote E)
     (bindIO pre_sync (\<lambda>proceed.
        if \<not> proceed then returnIO ()
        else bindIO (load_instances_or_exit E) (sync_and_commit E)))))"

section \<open>Vocabulary of the properties\<close>

text \<open>The flows for which a run writes a file: those with a payload and a detected change.\<close>

definition written_flows :: "state \<Rightarrow> flow list \<Rightarrow> flow list" where
  "written_flows lastState flows =
     filter (\<lambda>f. truthy (flowData f) \<and> change_detected lastState f) flows"

text \<open>The state after the loop over the flows: an entry set for each flow with a payload.\<close>

definition state_after_flows :: "env \<Rightarrow> flow list \<Rightarrow> state \<Rightarrow> state" where
  "state_after_flows E flows s =
     foldl (\<lambda>s f. if truthy (flowData f) then set_property (flow_id f) (new_entry E f) s else s)
       s flows"

text \<open>The ids of the last state that the remote no longer has, in the order of the keys.\<close>

definition deleted_ids :: "state \<Rightarrow> flow list \<Rightarrow> string list" where
  "deleted_ids lastState flows =
     filter (\<lambda>k. k \<notin> set (map flow_id flows)) (map fst lastState)"

text \<open>
  When the move of an archival succeeds (the directory can be made, the source is in the
  tree, the destination is not), and the world it leaves then.
\<close>

definition move_possible :: "env \<Rightarrow> instance_config \<Rightarrow> string \<Rightarrow> entry \<Rightarrow> world \<Rightarrow> bool" where
  "move_possible E inst ident flowState w =
     (\<not> io_fails w (deletedDir E inst flowState)
      \<and> tree w (sourcePath E inst ident flowState) \<noteq> None
      \<and> tree w (destinationPath E inst ident flowState) = None)"

definition moved_world :: "env \<Rightarrow> instance_config \<Rightarrow> string \<Rightarrow> entry \<Rightarrow> world \<Rightarrow> world" where
  "moved_world E inst ident flowState w =
     w\<lparr>tree := (tree w)(sourcePath E inst ident flowState := None,
                 destinationPath E inst ident flowState :=
                   tree w (sourcePath E inst ident flowState)),
       executed := executed w @ [GitMv (sourcePath E inst ident flowState)
                                   (destinationPath E inst ident flowState)]\<rparr>"

text \<open>The messages of the commits among the commands that have succeeded.\<close>

fun commits_of :: "command list \<Rightarrow> string list" where
  "commits_of [] = []"
| "commits_of (GitCommit msg # cs) = msg # commits_of cs"
| "commits_of (c # cs) = commits_of cs"

text \<open>The state that \<^verbatim>\<open>getLastKnownState\<close> finds in a world.\<close>

definition last_state :: "env \<Rightarrow> instance_config \<Rightarrow> world \<Rightarrow> state" where
  "last_state E inst w =
     (case stateFiles w (state_path E (inst_name inst)) of
        Some (StateJson s) \<Rightarrow> s
      | _ \<Rightarrow> [])"

text \<open>What \<^verbatim>\<open>syncInstanceFlows\<close> returns for the two lists.\<close>

definition result_of :: "instance_config \<Rightarrow> string list \<Rightarrow> string list \<Rightarrow> result" where
  "result_of inst changed moved =
     \<lparr>instanceName = inst_name inst, changedFiles = changed, movedFiles = moved,
      stateFile = stateFile_name (inst_name inst)\<rparr>"

text \<open>
  Two properties of an effect, over all its runs, the ones that reject too: it makes no
  commit, and it makes no commit or the one commit with a given message.
\<close>

definition keeps_commits :: "'a io \<Rightarrow> bool" where
  "keeps_commits m =
     (\<forall>w r w' l. m w = (r, w', l) \<longrightarrow> commits_of (executed w') = commits_of (executed w))"

text \<open>
  The message of the commit in the words of the specification:
  \<^verbatim>\<open>Sync: <N> updated, <M> archived flow(s)\<close>, without the clause whose count is zero.
\<close>

definition spec_commit_message :: "nat \<Rightarrow> nat \<Rightarrow> string" where
  "spec_commit_message n m =
     (if n > 0 \<and> m > 0
      then ''Sync: '' @ show_nat n @ '' updated, '' @ show_nat m @ '' archived flow(s)''
      else if n > 0 then ''Sync: '' @ show_nat n @ '' updated flow(s)''
      else ''Sync: '' @ show_nat m @ '' archived flow(s)'')"

text \<open>
  What the runs of \<^verbatim>\<open>syncInstanceFlows\<close> of a sweep return, one after the other from a
  world on: the results of the instances whose run resolves. A run that rejects gives no
  result, and the next run starts in the world that it leaves. From them, the number of
  files written and the number of files archived in the sweep.
\<close>

fun sweep_results :: "env \<Rightarrow> instance_config list \<Rightarrow> world \<Rightarrow> result list" where
  "sweep_results E [] w = []"
| "sweep_results E (inst # insts) w =
     (case fst (syncInstanceFlows E inst w) of
        Inr res \<Rightarrow> res # sweep_results E insts (fst (snd (syncInstanceFlows E inst w)))
      | Inl err \<Rightarrow> sweep_results E insts (fst (snd (syncInstanceFlows E inst w))))"

definition files_written :: "env \<Rightarrow> instance_config list \<Rightarrow> world \<Rightarrow> nat" where
  "files_written E instances w = length (concat (map changedFiles (sweep_results E instances w)))"

definition files_archived :: "env \<Rightarrow> instance_config list \<Rightarrow> world \<Rightarrow> nat" where
  "files_archived E instances w = length (concat (map movedFiles (sweep_results E instances w)))"

text \<open>
  Whether \<^verbatim>\<open>git rev-parse --is-inside-work-tree\<close> succeeds in a world; the world in which
  the loop over the instances starts, which is the one that the steps of \<^verbatim>\<open>syncFlows\<close>
  before it leave (lines 197 to 212); and the enabled instances of the configuration.
\<close>

definition inside_work_tree :: "world \<Rightarrow> bool" where
  "inside_work_tree w = (is_repo w \<and> cmd_fails w GitRevParse = None)"

definition before_sweep :: "env \<Rightarrow> bool io" where
  "before_sweep E =
     thenIO (\<lambda>w. console_print (fst (starting_line w)) (snd (starting_line w)) w)
     (thenIO (ensureGitRepo E)
     (thenIO (ensureGitRemote E) pre_sync))"

definition sweep_start :: "env \<Rightarrow> world \<Rightarrow> world" where
  "sweep_start E w = fst (snd (before_sweep E w))"

definition enabled_instances :: "env \<Rightarrow> instance_config list" where
  "enabled_instances E =
     (case loadInstancesConfig E of
        Inr instances \<Rightarrow> instances
      | Inl err \<Rightarrow> [])"

definition commits_at_most :: "string \<Rightarrow> 'a io \<Rightarrow> bool" where
  "commits_at_most msg m =
     (\<forall>w r w' l. m w = (r, w', l) \<longrightarrow>
        commits_of (executed w') = commits_of (executed w)
        \<or> commits_of (executed w') = commits_of (executed w) @ [msg])"

text \<open>Where the file of an id of the last state goes when it is archived.\<close>

definition archive_destination :: "env \<Rightarrow> instance_config \<Rightarrow> state \<Rightarrow> string \<Rightarrow> string" where
  "archive_destination E inst lastState ident =
     (case map_of lastState ident of
        None \<Rightarrow> []
      | Some flowState \<Rightarrow> destinationPath E inst ident flowState)"

text \<open>
  Two ASCII strings differ only in the case of letters: they have the same length, and at
  each position the characters are equal, or one is a capital from A to Z and the other is
  the small letter for it, 32 code points further on.
\<close>

definition capital_of :: "char \<Rightarrow> char \<Rightarrow> bool" where
  "capital_of a b =
     (65 \<le> (of_char a :: nat) \<and> (of_char a :: nat) \<le> 90
      \<and> (of_char b :: nat) = (of_char a :: nat) + 32)"

definition differ_only_in_case :: "string \<Rightarrow> string \<Rightarrow> bool" where
  "differ_only_in_case s t =
     (list_all is_ascii s \<and> list_all is_ascii t
      \<and> list_all2 (\<lambda>a b. a = b \<or> capital_of a b \<or> capital_of b a) s t)"

section \<open>A test instance\<close>

text \<open>
  The scenario of the specification: an instance \<^verbatim>\<open>inst\<close> whose remote has the one flow
  \<^verbatim>\<open>abc123\<close>, a repository at \<^verbatim>\<open>/app\<close>, and three worlds: one that has never been
  synchronised; one where the flow has been synchronised and then deleted upstream; and
  one where, besides, its file has been removed from the tree by hand. Further down: the
  world after the first synchronisation, the same flow without its payload, and a second
  flow whose type is written with capitals. \<open>json_indent4\<close> of the test environment has
  the one value that the scenario needs.
\<close>

definition example_instance :: instance_config where
  "example_instance =
     \<lparr>inst_name = ''inst'', inst_url = ''http://localhost:3000/'', inst_apiKey = ''key'',
      inst_enabled = True\<rparr>"

definition example_config :: string where
  "example_config =
     ''[{\"name\":\"inst\",\"url\":\"http://localhost:3000/\",\"apiKey\":\"key\",\"enabled\":true}]''"

definition example_env :: env where
  "example_env =
     \<lparr>REPO_PATH = ''/app'',
      GIT_REMOTE_URL = None,
      FLOWISE_INSTANCES_JSON = Some example_config,
      parse_instances = (\<lambda>s. if s = example_config then Some [example_instance] else None),
      json_indent4 = (\<lambda>s. if s = ''{\"a\":1}'' then Some ''{\<newline>    \"a\": 1\<newline>}'' else None),
      platform_toLowerCase = (\<lambda>s. s)\<rparr>"

definition test_flow :: flow where
  "test_flow =
     \<lparr>flow_id = ''abc123'', flow_name = ''Test Flow'', flowData = Some ''{\"a\":1}'',
      updatedDate = Some ''T1'', flow_type = Some ''chatflow''\<rparr>"

definition test_entry :: entry where
  "test_entry =
     \<lparr>st_updatedDate = Some ''T1'', st_name = Some ''Test_Flow'',
      st_fileName = Some ''Test_Flow_id_c123.json'', st_type = Some ''chatflow''\<rparr>"

definition fresh_world :: world where
  "fresh_world =
     \<lparr>tree = Map.empty, stateFiles = Map.empty, executed = [], is_repo = True, remotes = Map.empty,
      remote = (\<lambda>url key. Http 200 ''[...]'' (Some [test_flow])),
      io_fails = (\<lambda>p. False), cmd_fails = Map.empty,
      remote_heads = (\<lambda>r b. []), origin_main = (Map.empty, Map.empty),
      now = ''1/1/2025, 12:00:00 AM''\<rparr>"

definition orphan_world :: world where
  "orphan_world =
     \<lparr>tree = Map.empty,
      stateFiles = [''/app/.flow_state_inst.json'' \<mapsto> StateJson [(''abc123'', test_entry)]],
      executed = [], is_repo = True, remotes = Map.empty,
      remote = (\<lambda>url key. Http 200 ''[]'' (Some [])),
      io_fails = (\<lambda>p. False), cmd_fails = Map.empty,
      remote_heads = (\<lambda>r b. []), origin_main = (Map.empty, Map.empty),
      now = ''1/1/2025, 12:00:00 AM''\<rparr>"

definition deleted_world :: world where
  "deleted_world =
     \<lparr>tree = [''/app/flows/inst/chatflow/Test_Flow_id_c123.json'' \<mapsto> ''{\<newline>    \"a\": 1\<newline>}''],
      stateFiles = [''/app/.flow_state_inst.json'' \<mapsto> StateJson [(''abc123'', test_entry)]],
      executed = [], is_repo = True, remotes = Map.empty,
      remote = (\<lambda>url key. Http 200 ''[]'' (Some [])),
      io_fails = (\<lambda>p. False), cmd_fails = Map.empty,
      remote_heads = (\<lambda>r b. []), origin_main = (Map.empty, Map.empty),
      now = ''1/1/2025, 12:00:00 AM''\<rparr>"

definition synced_world :: world where
  "synced_world =
     \<lparr>tree = [''/app/flows/inst/chatflow/Test_Flow_id_c123.json'' \<mapsto> ''{\<newline>    \"a\": 1\<newline>}''],
      stateFiles = [''/app/.flow_state_inst.json'' \<mapsto> StateJson [(''abc123'', test_entry)]],
      executed = [], is_repo = True, remotes = Map.empty,
      remote = (\<lambda>url key. Http 200 ''[...]'' (Some [test_flow])),
      io_fails = (\<lambda>p. False), cmd_fails = Map.empty,
      remote_heads = (\<lambda>r b. []), origin_main = (Map.empty, Map.empty),
      now = ''1/1/2025, 12:00:00 AM''\<rparr>"

definition empty_flow :: flow where
  "empty_flow =
     \<lparr>flow_id = ''abc123'', flow_name = ''Test Flow'', flowData = None,
      updatedDate = Some ''T2'', flow_type = Some ''chatflow''\<rparr>"

definition upper_flow :: flow where
  "upper_flow =
     \<lparr>flow_id = ''def456'', flow_name = ''Other'', flowData = Some ''{\"a\":1}'',
      updatedDate = Some ''T1'', flow_type = Some ''ChatFlow''\<rparr>"

text \<open>
  A flow whose id is \<^verbatim>\<open>__proto__\<close> and a flow whose id is \<^verbatim>\<open>constructor\<close> and which has
  no \<^verbatim>\<open>updatedDate\<close>, each alone in the remote collection of a world that has never been
  synchronised.
\<close>

definition proto_flow :: flow where
  "proto_flow =
     \<lparr>flow_id = ''__proto__'', flow_name = ''P'', flowData = Some ''{\"a\":1}'',
      updatedDate = Some ''T1'', flow_type = Some ''chatflow''\<rparr>"

definition proto_world :: world where
  "proto_world =
     \<lparr>tree = Map.empty, stateFiles = Map.empty, executed = [],
      is_repo = True, remotes = Map.empty,
      remote = (\<lambda>url key. Http 200 ''[...]'' (Some [proto_flow])),
      io_fails = (\<lambda>p. False), cmd_fails = Map.empty,
      remote_heads = (\<lambda>r b. []), origin_main = (Map.empty, Map.empty),
      now = ''1/1/2025, 12:00:00 AM''\<rparr>"



text \<open>
  A directory that is not yet a git repository, with a remote instance that has no flow.
\<close>

definition bare_world :: world where
  "bare_world =
     \<lparr>tree = Map.empty, stateFiles = Map.empty, executed = [],
      is_repo = False, remotes = Map.empty,
      remote = (\<lambda>url key. Http 200 ''[]'' (Some [])),
      io_fails = (\<lambda>p. False), cmd_fails = Map.empty,
      remote_heads = (\<lambda>r b. []), origin_main = (Map.empty, Map.empty),
      now = ''1/1/2025, 12:00:00 AM''\<rparr>"

text \<open>
  Two flows whose types are the Greek letters alpha and sigma, in capitals
  (\<^verbatim>\<open>U+0391 U+03A3\<close>) and in small letters (\<^verbatim>\<open>U+03B1 U+03C3\<close>), as UTF-8. The environment
  has the lower-case form that \<^verbatim>\<open>String.prototype.toLowerCase\<close> gives the first: the
  capital sigma at the end of a word becomes the final sigma \<^verbatim>\<open>U+03C2\<close> (the rule
  \<^verbatim>\<open>Final_Sigma\<close> of Unicode's \<^verbatim>\<open>SpecialCasing.txt\<close>, which ECMAScript follows), so the
  result is \<^verbatim>\<open>U+03B1 U+03C2\<close>. The small letters are their own lower-case form.
\<close>

definition capital_alpha_sigma :: string where
  "capital_alpha_sigma = [CHR 0xCE, CHR 0x91, CHR 0xCE, CHR 0xA3]"

definition small_alpha_sigma :: string where
  "small_alpha_sigma = [CHR 0xCE, CHR 0xB1, CHR 0xCF, CHR 0x83]"

definition small_alpha_final_sigma :: string where
  "small_alpha_final_sigma = [CHR 0xCE, CHR 0xB1, CHR 0xCF, CHR 0x82]"

definition greek_env :: env where
  "greek_env =
     \<lparr>REPO_PATH = ''/app'',
      GIT_REMOTE_URL = None,
      FLOWISE_INSTANCES_JSON = Some example_config,
      parse_instances = (\<lambda>s. if s = example_config then Some [example_instance] else None),
      json_indent4 = (\<lambda>s. if s = ''{\"a\":1}'' then Some ''{\<newline>    \"a\": 1\<newline>}'' else None),
      platform_toLowerCase =
        (\<lambda>s. if s = capital_alpha_sigma then small_alpha_final_sigma else s)\<rparr>"

definition capital_sigma_flow :: flow where
  "capital_sigma_flow =
     \<lparr>flow_id = ''aaa111'', flow_name = ''One'', flowData = Some ''{\"a\":1}'',
      updatedDate = Some ''T1'', flow_type = Some capital_alpha_sigma\<rparr>"

definition small_sigma_flow :: flow where
  "small_sigma_flow =
     \<lparr>flow_id = ''bbb222'', flow_name = ''Two'', flowData = Some ''{\"a\":1}'',
      updatedDate = Some ''T1'', flow_type = Some small_alpha_sigma\<rparr>"

section \<open>What each loop computes\<close>

lemma process_flow_run:
  "process_flow E inst lastState f acc w =
     (if \<not> truthy (flowData f) then (Inr acc, w, [])
      else if io_fails w (typeDir E inst f) then (Inl (IOError (typeDir E inst f)), w, [])
      else if \<not> change_detected lastState f
        then (Inr (fst acc, set_property (flow_id f) (new_entry E f) (snd acc)), w, [])
      else (case json_indent4 E (or_else (flowData f) []) of
              None \<Rightarrow> (Inl (SyntaxError (or_else (flowData f) [])), w, [change_line E f])
            | Some formatted \<Rightarrow>
                if io_fails w (path_join [typeDir E inst f, uniqueFileName f])
                then (Inl (IOError (path_join [typeDir E inst f, uniqueFileName f])), w,
                      [change_line E f])
                else (Inr (fst acc @ [changedFile E inst f],
                           set_property (flow_id f) (new_entry E f) (snd acc)),
                      w\<lparr>tree := (tree w)(path_join [typeDir E inst f, uniqueFileName f] \<mapsto> formatted)\<rparr>,
                      [change_line E f])))"
  by (simp add: process_flow_def bindIO_def thenIO_def returnIO_def throwIO_def fs_mkdir_def
      fs_writeFile_def console_print_def split: option.splits)

lemma archive_flow_run:
  "archive_flow E inst lastState ident acc w =
     (case map_of lastState ident of
        None \<Rightarrow> (Inl (TypeError ''Cannot read properties of undefined''), w, [])
      | Some flowState \<Rightarrow>
          if \<not> io_fails w (deletedDir E inst flowState)
             \<and> tree w (sourcePath E inst ident flowState) \<noteq> None
             \<and> tree w (destinationPath E inst ident flowState) = None
          then (Inr (fst acc @ [destinationPath E inst ident flowState], AList.delete ident (snd acc)),
                w\<lparr>tree := (tree w)(sourcePath E inst ident flowState := None,
                       destinationPath E inst ident flowState := tree w (sourcePath E inst ident flowState)),
                  executed := executed w @ [GitMv (sourcePath E inst ident flowState) (destinationPath E inst ident flowState)]\<rparr>,
                [archiving_line ident flowState])
          else (Inr (fst acc, AList.delete ident (snd acc)), w,
                archiving_line ident flowState
                # (if io_fails w (deletedDir E inst flowState) then []
                   else [(Error, ''Command failed: '' @
                      git_mv_stderr (tree w (sourcePath E inst ident flowState) \<noteq> None)
                        (sourcePath E inst ident flowState) (destinationPath E inst ident flowState))])
                @ [could_not_archive_line ident flowState]))"
  by (auto simp add: archive_flow_def bindIO_def thenIO_def returnIO_def throwIO_def fs_mkdir_def catchIO_def
      runCommand_def git_def console_print_def split: option.splits)

lemma bindIO_Inr:
  "bindIO m f w = (Inr y, w', l) \<longleftrightarrow>
     (\<exists>x w1 l1 l2. m w = (Inr x, w1, l1) \<and> f x w1 = (Inr y, w', l2) \<and> l = l1 @ l2)"
  by (auto simp: bindIO_def split: prod.splits sum.splits)

lemma process_flow_Inr:
  assumes "process_flow E inst lastState f acc w = (Inr acc', w', l)"
  shows "(\<not> truthy (flowData f) \<and> acc' = acc \<and> w' = w \<and> l = [])
       \<or> (truthy (flowData f) \<and> \<not> io_fails w (typeDir E inst f)
           \<and> snd acc' = set_property (flow_id f) (new_entry E f) (snd acc)
           \<and> ((\<not> change_detected lastState f \<and> fst acc' = fst acc \<and> w' = w \<and> l = [])
              \<or> (change_detected lastState f \<and> fst acc' = fst acc @ [changedFile E inst f]
                  \<and> l = [change_line E f]
                  \<and> \<not> io_fails w (path_join [typeDir E inst f, uniqueFileName f])
                  \<and> (\<exists>formatted. json_indent4 E (or_else (flowData f) []) = Some formatted
                        \<and> w' = w\<lparr>tree := (tree w)(path_join [typeDir E inst f, uniqueFileName f] \<mapsto> formatted)\<rparr>))))"
  using assms unfolding process_flow_run
  by (auto split: if_splits option.splits)

lemma state_after_flows_Cons:
  "state_after_flows E (f # fs) s =
     state_after_flows E fs (if truthy (flowData f) then set_property (flow_id f) (new_entry E f) s else s)"
  by (simp add: state_after_flows_def)

lemma written_flows_Cons:
  "written_flows L (f # fs) =
     (if truthy (flowData f) \<and> change_detected L f then f # written_flows L fs else written_flows L fs)"
  by (simp add: written_flows_def)

lemma flows_loop_Inr:
  "flows_loop E inst L flows acc w = (Inr acc', w', l) \<Longrightarrow>
     fst acc' = fst acc @ map (changedFile E inst) (written_flows L flows)
     \<and> snd acc' = state_after_flows E flows (snd acc)
     \<and> stateFiles w' = stateFiles w \<and> executed w' = executed w
     \<and> remote w' = remote w \<and> io_fails w' = io_fails w \<and> cmd_fails w' = cmd_fails w
     \<and> (\<forall>f\<in>set flows. truthy (flowData f) \<longrightarrow> \<not> io_fails w (typeDir E inst f))
     \<and> (written_flows L flows = [] \<longrightarrow> w' = w)"
proof (induction flows arbitrary: acc w l)
  case Nil
  then show ?case by (simp add: returnIO_def written_flows_def state_after_flows_def)
next
  case (Cons f fs)
  from Cons.prems obtain acc1 w1 l1 l2 where
    step: "process_flow E inst L f acc w = (Inr acc1, w1, l1)" and
    rest: "flows_loop E inst L fs acc1 w1 = (Inr acc', w', l2)"
    by (auto simp: bindIO_Inr)
  note IH = Cons.IH[OF rest]
  from process_flow_Inr[OF step] IH show ?case
    by (auto simp: state_after_flows_Cons written_flows_Cons)
qed

lemma archive_flow_Inr:
  assumes "archive_flow E inst L k acc w = (Inr acc', w', l)"
  shows "\<exists>e. map_of L k = Some e \<and> snd acc' = AList.delete k (snd acc)
           \<and> ((move_possible E inst k e w \<and> fst acc' = fst acc @ [destinationPath E inst k e]
                \<and> w' = moved_world E inst k e w \<and> l = [archiving_line k e])
             \<or> (\<not> move_possible E inst k e w \<and> fst acc' = fst acc \<and> w' = w
                \<and> could_not_archive_line k e \<in> set l))"
  using assms unfolding archive_flow_run move_possible_def moved_world_def
  by (auto split: option.splits if_splits)

lemma archive_flow_total:
  assumes "map_of L k = Some e"
  shows "\<exists>acc' w' l. archive_flow E inst L k acc w = (Inr acc', w', l)"
  using assms unfolding archive_flow_run by (auto split: option.splits if_splits)

lemma archive_loop_total:
  "set ids \<subseteq> fst ` set L \<Longrightarrow> \<exists>acc' w' l. archive_loop E inst L cfi ids acc w = (Inr acc', w', l)"
proof (induction ids arbitrary: acc w)
  case Nil
  then show ?case by (simp add: returnIO_def)
next
  case (Cons k ks)
  show ?case
  proof (cases "k \<in> cfi")
    case True
    with Cons show ?thesis by simp
  next
    case False
    from Cons.prems have "k \<in> fst ` set L" by simp
    then obtain e where "map_of L k = Some e"
      by (metis domD dom_map_of_conv_image_fst)
    from archive_flow_total[OF this] obtain acc1 w1 l1 where
      step: "archive_flow E inst L k acc w = (Inr acc1, w1, l1)" by blast
    from Cons.IH[of acc1 w1] Cons.prems obtain acc' w' l2 where
      "archive_loop E inst L cfi ks acc1 w1 = (Inr acc', w', l2)" by auto
    with step False show ?thesis by (simp add: bindIO_Inr)
  qed
qed

lemma commits_of_append: "commits_of (xs @ ys) = commits_of xs @ commits_of ys"
  by (induction xs rule: commits_of.induct) auto

lemma archive_loop_Inr:
  "archive_loop E inst L cfi ids acc w = (Inr acc', w', l) \<Longrightarrow>
     map_of (snd acc') = (\<lambda>k. if k \<in> set ids \<and> k \<notin> cfi then None else map_of (snd acc) k)
     \<and> fst ` set (snd acc') = fst ` set (snd acc) - {k \<in> set ids. k \<notin> cfi}
     \<and> stateFiles w' = stateFiles w
     \<and> remote w' = remote w \<and> io_fails w' = io_fails w \<and> cmd_fails w' = cmd_fails w
     \<and> commits_of (executed w') = commits_of (executed w)
     \<and> (\<exists>new. fst acc' = fst acc @ new \<and> (new = [] \<longrightarrow> w' = w))"
proof (induction ids arbitrary: acc w l)
  case Nil
  then show ?case by (simp add: returnIO_def)
next
  case (Cons k ks)
  show ?case
  proof (cases "k \<in> cfi")
    case True
    with Cons.prems have "archive_loop E inst L cfi ks acc w = (Inr acc', w', l)" by simp
    from Cons.IH[OF this] True show ?thesis by (auto simp: fun_eq_iff)
  next
    case False
    with Cons.prems obtain acc1 w1 l1 l2 where
      step: "archive_flow E inst L k acc w = (Inr acc1, w1, l1)" and
      rest: "archive_loop E inst L cfi ks acc1 w1 = (Inr acc', w', l2)"
      by (auto simp: bindIO_Inr)
    note IH = Cons.IH[OF rest]
    from archive_flow_Inr[OF step] obtain e where
      e: "map_of L k = Some e" "snd acc1 = AList.delete k (snd acc)" and
      alt: "(move_possible E inst k e w \<and> fst acc1 = fst acc @ [destinationPath E inst k e]
                \<and> w1 = moved_world E inst k e w \<and> l1 = [archiving_line k e])
             \<or> (\<not> move_possible E inst k e w \<and> fst acc1 = fst acc \<and> w1 = w
                \<and> could_not_archive_line k e \<in> set l1)" by blast
    have frame: "stateFiles w1 = stateFiles w \<and> remote w1 = remote w \<and> io_fails w1 = io_fails w
        \<and> cmd_fails w1 = cmd_fails w \<and> commits_of (executed w1) = commits_of (executed w)"
      using alt by (auto simp: moved_world_def commits_of_append)
    have m: "map_of (snd acc') = (\<lambda>x. if x \<in> set (k # ks) \<and> x \<notin> cfi then None else map_of (snd acc) x)"
      using IH e False by (auto simp: fun_eq_iff AList.delete_conv')
    have d: "fst ` set (snd acc') = fst ` set (snd acc) - {x \<in> set (k # ks). x \<notin> cfi}"
    proof -
      have "fst ` set (snd acc1) = fst ` set (snd acc) - {k}"
        using e(2) AList.delete_keys[of k "snd acc"] by (metis list.set_map set_removeAll)
      with IH False show ?thesis by auto
    qed
    have n: "\<exists>new. fst acc' = fst acc @ new \<and> (new = [] \<longrightarrow> w' = w)"
      using IH alt by auto
    from m d n frame IH show ?thesis by simp
  qed
qed


lemma map_of_set_property:
  "map_of (set_property k e s) x =
     (if x = k \<and> (k \<noteq> ''__proto__'' \<or> map_of s k \<noteq> None) then Some e else map_of s x)"
  by (auto simp: set_property_def AList.update_conv')

lemma keys_set_property: "fst ` set (set_property k e s) \<subseteq> insert k (fst ` set s)"
  by (auto simp: set_property_def AList.dom_update)

lemma state_after_flows_keys:
  "k \<in> fst ` set (state_after_flows E flows s) \<Longrightarrow>
     k \<in> fst ` set s \<or> (\<exists>f\<in>set flows. truthy (flowData f) \<and> flow_id f = k)"
proof (induction flows arbitrary: s)
  case Nil
  then show ?case by (simp add: state_after_flows_def)
next
  case (Cons f fs)
  let ?s = "if truthy (flowData f) then set_property (flow_id f) (new_entry E f) s else s"
  from Cons.prems have "k \<in> fst ` set (state_after_flows E fs ?s)"
    by (simp only: state_after_flows_Cons)
  from Cons.IH[OF this] consider "k \<in> fst ` set ?s"
    | "\<exists>f\<in>set fs. truthy (flowData f) \<and> flow_id f = k" by blast
  then show ?case
  proof cases
    case 1
    show ?thesis
    proof (cases "truthy (flowData f)")
      case True
      with 1 keys_set_property[of "flow_id f" "new_entry E f" s]
      have "k = flow_id f \<or> k \<in> fst ` set s" by auto
      with True show ?thesis by auto
    next
      case False
      with 1 show ?thesis by simp
    qed
  next
    case 2
    then show ?thesis by auto
  qed
qed

lemma state_after_flows_other:
  "\<forall>f\<in>set flows. truthy (flowData f) \<longrightarrow> flow_id f \<noteq> k \<Longrightarrow>
     map_of (state_after_flows E flows s) k = map_of s k"
  by (induction flows arbitrary: s)
     (auto simp: state_after_flows_Cons map_of_set_property state_after_flows_def)

lemma state_after_flows_payload:
  "distinct (map flow_id flows) \<Longrightarrow> f \<in> set flows \<Longrightarrow> truthy (flowData f) \<Longrightarrow>
   flow_id f \<noteq> ''__proto__'' \<or> map_of s (flow_id f) \<noteq> None \<Longrightarrow>
     map_of (state_after_flows E flows s) (flow_id f) = Some (new_entry E f)"
proof (induction flows arbitrary: s)
  case Nil
  then show ?case by simp
next
  case (Cons g gs)
  show ?case
  proof (cases "f = g")
    case True
    have "\<forall>h\<in>set gs. truthy (flowData h) \<longrightarrow> flow_id h \<noteq> flow_id g"
      using Cons.prems(1) by (auto simp: image_iff)
    from state_after_flows_other[OF this] True Cons.prems(3,4) show ?thesis
      by (simp add: state_after_flows_Cons map_of_set_property)
  next
    case False
    with Cons.prems have ne: "flow_id g \<noteq> flow_id f" by (auto simp: image_iff)
    let ?s = "if truthy (flowData g) then set_property (flow_id g) (new_entry E g) s else s"
    have "map_of ?s (flow_id f) = map_of s (flow_id f)"
      using ne by (simp add: map_of_set_property)
    with Cons.prems(4) have "flow_id f \<noteq> ''__proto__'' \<or> map_of ?s (flow_id f) \<noteq> None"
      by simp
    from Cons.IH[OF _ _ Cons.prems(3) this] Cons.prems(1,2) False show ?thesis
      by (simp add: state_after_flows_Cons)
  qed
qed

lemma change_detected_own:
  "map_of S (flow_id f) = Some e \<Longrightarrow> change_detected S f \<longleftrightarrow> st_updatedDate e \<noteq> updatedDate f"
  by (simp add: change_detected_def get_property_def)

lemma reconcile_Inr:
  assumes "reconcile E inst flows L w = (Inr (changed, moved, cur), w', l)"
  shows "changed = map (changedFile E inst) (written_flows L flows)
     \<and> map_of cur = (\<lambda>k. if k \<in> set (deleted_ids L flows) then None
                          else map_of (state_after_flows E flows L) k)
     \<and> fst ` set cur = fst ` set (state_after_flows E flows L) - set (deleted_ids L flows)
     \<and> stateFiles w' = stateFiles w
     \<and> remote w' = remote w \<and> io_fails w' = io_fails w \<and> cmd_fails w' = cmd_fails w
     \<and> commits_of (executed w') = commits_of (executed w)
     \<and> (\<forall>f\<in>set flows. truthy (flowData f) \<longrightarrow> \<not> io_fails w (typeDir E inst f))
     \<and> (changed = [] \<and> moved = [] \<longrightarrow> w' = w)"
proof -
  from assms obtain c1 s1 w1 l1 l2 where
    fl: "flows_loop E inst L flows ([], L) w = (Inr (c1, s1), w1, l1)" and
    al: "archive_loop E inst L (set (map flow_id flows)) (map fst L) ([], s1) w1
           = (Inr (moved, cur), w', l2)" and
    c: "changed = c1"
    by (auto simp: reconcile_def bindIO_Inr returnIO_def split: prod.splits)
  note F = flows_loop_Inr[OF fl]
  note A = archive_loop_Inr[OF al]
  have d: "{k \<in> set (map fst L). k \<notin> set (map flow_id flows)} = set (deleted_ids L flows)"
    by (auto simp: deleted_ids_def)
  have m: "map_of cur = (\<lambda>k. if k \<in> set (deleted_ids L flows) then None
                          else map_of (state_after_flows E flows L) k)"
    using A F d by (auto simp: fun_eq_iff)
  have k: "fst ` set cur = fst ` set (state_after_flows E flows L) - set (deleted_ids L flows)"
    using A F d by auto
  have u: "changed = [] \<and> moved = [] \<longrightarrow> w' = w"
    using A F c by auto
  from m k u A F c show ?thesis by auto
qed

lemma getLastKnownState_run:
  "getLastKnownState E (inst_name inst) w = (Inr (last_state E inst w), w, [])"
  by (simp add: getLastKnownState_def last_state_def catchIO_def bindIO_def fs_readFile_state_def
      JSON_parse_state_def returnIO_def throwIO_def split: option.splits stored.splits)

lemma sync_run:
  assumes "remote w (apiUrl inst) (inst_apiKey inst) = Http status body (Some flows)"
    and "200 \<le> status" "status \<le> 299"
    and "reconcile E inst flows (last_state E inst w) w = (Inr (changed, moved, cur), w1, l1)"
  shows "syncInstanceFlows E inst w =
     (if changed = [] \<and> moved = []
      then (Inr (result_of inst changed moved), w1, syncing_line inst # l1 @ [no_changes_line inst])
      else if io_fails w1 (state_path E (inst_name inst))
      then (Inl (IOError (state_path E (inst_name inst))), w1, syncing_line inst # l1)
      else (Inr (result_of inst changed moved),
            w1\<lparr>stateFiles := (stateFiles w1)(state_path E (inst_name inst) \<mapsto> StateJson cur)\<rparr>,
            syncing_line inst # l1 @ [updated_line inst changed moved]))"
  using assms
  by (simp add: syncInstanceFlows_def thenIO_def bindIO_def console_print_def fetch_def
      getLastKnownState_run returnIO_def saveState_def fs_writeFile_state_def result_of_def)

lemma sync_Inr:
  assumes "syncInstanceFlows E inst w = (Inr r, w', l)"
  shows "\<exists>status body flows changed moved cur w1 l1.
      remote w (apiUrl inst) (inst_apiKey inst) = Http status body (Some flows)
    \<and> 200 \<le> status \<and> status \<le> 299
    \<and> reconcile E inst flows (last_state E inst w) w = (Inr (changed, moved, cur), w1, l1)
    \<and> r = result_of inst changed moved
    \<and> (if changed = [] \<and> moved = [] then w' = w1
        else \<not> io_fails w1 (state_path E (inst_name inst))
           \<and> w' = w1\<lparr>stateFiles := (stateFiles w1)(state_path E (inst_name inst) \<mapsto> StateJson cur)\<rparr>)"
proof -
  obtain status body parsed where
    r: "remote w (apiUrl inst) (inst_apiKey inst) = Http status body parsed
        \<or> (\<exists>m. remote w (apiUrl inst) (inst_apiKey inst) = Rejected m)"
    by (cases "remote w (apiUrl inst) (inst_apiKey inst)") auto
  with assms have h: "remote w (apiUrl inst) (inst_apiKey inst) = Http status body parsed"
    by (auto simp: syncInstanceFlows_def thenIO_def bindIO_def console_print_def fetch_def)
  with assms have ok: "200 \<le> status" "status \<le> 299"
    by (auto simp: syncInstanceFlows_def thenIO_def bindIO_def console_print_def fetch_def throwIO_def
        split: if_splits)
  with assms h obtain flows where p: "parsed = Some flows"
    by (cases parsed) (auto simp: syncInstanceFlows_def thenIO_def bindIO_def console_print_def fetch_def throwIO_def)
  obtain rr w1 l1 where rec: "reconcile E inst flows (last_state E inst w) w = (rr, w1, l1)"
    by (cases "reconcile E inst flows (last_state E inst w) w") auto
  with assms h ok p obtain changed moved cur where rr: "rr = Inr (changed, moved, cur)"
    by (cases rr) (auto simp: syncInstanceFlows_def thenIO_def bindIO_def console_print_def fetch_def
        getLastKnownState_run)
  from sync_run[OF h[unfolded p] ok rec[unfolded rr]] assms
  have "r = result_of inst changed moved
    \<and> (if changed = [] \<and> moved = [] then w' = w1
        else \<not> io_fails w1 (state_path E (inst_name inst))
           \<and> w' = w1\<lparr>stateFiles := (stateFiles w1)(state_path E (inst_name inst) \<mapsto> StateJson cur)\<rparr>)"
    by (auto split: if_splits)
  with h p ok rec rr show ?thesis by blast
qed

section \<open>The second run\<close>

lemma written_flows_Nil_iff:
  "written_flows S flows = [] \<longleftrightarrow> (\<forall>f\<in>set flows. truthy (flowData f) \<longrightarrow> \<not> change_detected S f)"
  by (auto simp: written_flows_def filter_empty_conv)

lemma flows_loop_unchanged:
  "\<forall>f\<in>set flows. truthy (flowData f) \<longrightarrow> \<not> io_fails w (typeDir E inst f) \<Longrightarrow>
   written_flows S flows = [] \<Longrightarrow>
   flows_loop E inst S flows acc w = (Inr (fst acc, state_after_flows E flows (snd acc)), w, [])"
proof (induction flows arbitrary: acc)
  case Nil
  then show ?case by (simp add: returnIO_def state_after_flows_def)
next
  case (Cons f fs)
  have w: "written_flows S fs = []"
    using Cons.prems(2) by (auto simp: written_flows_Nil_iff)
  have io: "\<forall>f\<in>set fs. truthy (flowData f) \<longrightarrow> \<not> io_fails w (typeDir E inst f)"
    using Cons.prems(1) by simp
  note IH = Cons.IH[OF io w]
  have f: "truthy (flowData f) \<longrightarrow> \<not> change_detected S f \<and> \<not> io_fails w (typeDir E inst f)"
    using Cons.prems by (auto simp: written_flows_Nil_iff)
  show ?case
    using f IH by (simp add: bindIO_def process_flow_run state_after_flows_Cons)
qed

lemma archive_loop_none:
  "set ids \<subseteq> cfi \<Longrightarrow> archive_loop E inst L cfi ids acc w = (Inr acc, w, [])"
  by (induction ids) (auto simp: returnIO_def)

lemma reconcile_second:
  assumes "\<forall>f\<in>set flows. truthy (flowData f) \<longrightarrow> \<not> io_fails w (typeDir E inst f)"
      and "written_flows S flows = []"
      and "fst ` set S \<subseteq> flow_id ` set flows"
  shows "reconcile E inst flows S w = (Inr ([], [], state_after_flows E flows S), w, [])"
proof -
  have "set (map fst S) \<subseteq> set (map flow_id flows)" using assms(3) by simp
  from archive_loop_none[OF this] flows_loop_unchanged[OF assms(1,2)] show ?thesis
    by (simp add: reconcile_def bindIO_def returnIO_def)
qed

lemma reconcile_entry:
  assumes r: "reconcile E inst flows L w = (Inr (changed, moved, cur), w', l)"
      and d: "distinct (map flow_id flows)"
      and f: "f \<in> set flows" "truthy (flowData f)"
      and p: "flow_id f \<noteq> ''__proto__'' \<or> map_of L (flow_id f) \<noteq> None"
  shows "map_of cur (flow_id f) = Some (new_entry E f)"
proof -
  note R = reconcile_Inr[OF r]
  have "flow_id f \<notin> set (deleted_ids L flows)" using f by (auto simp: deleted_ids_def)
  with R have "map_of cur (flow_id f) = map_of (state_after_flows E flows L) (flow_id f)" by simp
  with state_after_flows_payload[OF d f p] show ?thesis by simp
qed

lemma reconcile_keys:
  assumes r: "reconcile E inst flows L w = (Inr (changed, moved, cur), w', l)"
  shows "fst ` set cur \<subseteq> flow_id ` set flows"
proof -
  note R = reconcile_Inr[OF r]
  show ?thesis
  proof
    fix k
    assume "k \<in> fst ` set cur"
    with R have a: "k \<in> fst ` set (state_after_flows E flows L)"
      and b: "k \<notin> set (deleted_ids L flows)" by auto
    from state_after_flows_keys[OF a] b show "k \<in> flow_id ` set flows"
      by (auto simp: deleted_ids_def)
  qed
qed

lemma reconcile_fixpoint:
  assumes r: "reconcile E inst flows L w = (Inr (changed, moved, cur), w', l)"
      and d: "distinct (map flow_id flows)"
      and p: "\<forall>f\<in>set flows. truthy (flowData f) \<longrightarrow>
                flow_id f \<noteq> ''__proto__'' \<or> map_of L (flow_id f) \<noteq> None"
  shows "written_flows cur flows = [] \<and> fst ` set cur \<subseteq> flow_id ` set flows"
proof -
  have "\<not> change_detected cur f" if f: "f \<in> set flows" "truthy (flowData f)" for f
  proof -
    from p f have "flow_id f \<noteq> ''__proto__'' \<or> map_of L (flow_id f) \<noteq> None" by blast
    from reconcile_entry[OF r d f this] show ?thesis
      by (simp add: change_detected_own new_entry_def)
  qed
  with reconcile_keys[OF r] show ?thesis by (simp add: written_flows_Nil_iff)
qed

lemma last_state_saved:
  "last_state E inst (w\<lparr>stateFiles := (stateFiles w)(state_path E (inst_name inst) \<mapsto> StateJson s)\<rparr>) = s"
  by (simp add: last_state_def)

lemma second_run_unchanged:
  assumes run1: "syncInstanceFlows E inst w = (Inr r1, w1, l1)"
      and rem: "remote w (apiUrl inst) (inst_apiKey inst) = Http status body (Some flows)"
      and dist: "distinct (map flow_id flows)"
      and own: "\<forall>f\<in>set flows. truthy (flowData f) \<longrightarrow>
                  flow_id f \<noteq> ''__proto__'' \<or> map_of (last_state E inst w) (flow_id f) \<noteq> None"
  shows "\<exists>r2 l2. syncInstanceFlows E inst w1 = (Inr r2, w1, l2)
           \<and> changedFiles r2 = [] \<and> movedFiles r2 = []"
proof -
  from sync_Inr[OF run1] rem obtain changed moved cur wa la where
    ok: "200 \<le> status" "status \<le> 299" and
    rec: "reconcile E inst flows (last_state E inst w) w = (Inr (changed, moved, cur), wa, la)" and
    r1: "r1 = result_of inst changed moved" and
    w1: "if changed = [] \<and> moved = [] then w1 = wa
        else \<not> io_fails wa (state_path E (inst_name inst))
           \<and> w1 = wa\<lparr>stateFiles := (stateFiles wa)(state_path E (inst_name inst) \<mapsto> StateJson cur)\<rparr>"
    by auto
  note R = reconcile_Inr[OF rec]
  show ?thesis
  proof (cases "changed = [] \<and> moved = []")
    case True
    with w1 R have "w1 = w" by simp
    with run1 r1 True show ?thesis by (auto simp: result_of_def)
  next
    case False
    with w1 have w1': "w1 = wa\<lparr>stateFiles := (stateFiles wa)(state_path E (inst_name inst) \<mapsto> StateJson cur)\<rparr>"
      by simp
    have ls: "last_state E inst w1 = cur" unfolding w1' by (rule last_state_saved)
    have rem1: "remote w1 (apiUrl inst) (inst_apiKey inst) = Http status body (Some flows)"
      using rem R by (simp add: w1')
    have io: "\<forall>f\<in>set flows. truthy (flowData f) \<longrightarrow> \<not> io_fails w1 (typeDir E inst f)"
      using R by (simp add: w1')
    from reconcile_fixpoint[OF rec dist own] have
      fx: "written_flows cur flows = []" "fst ` set cur \<subseteq> flow_id ` set flows" by simp_all
    from reconcile_second[OF io fx] have
      "reconcile E inst flows (last_state E inst w1) w1 = (Inr ([], [], state_after_flows E flows cur), w1, [])"
      by (simp add: ls)
    from sync_run[OF rem1 ok this] show ?thesis by (simp add: result_of_def)
  qed
qed

lemma run_eq: "fst X = Inr r \<Longrightarrow> X = (Inr r, fst (snd X), snd (snd X))"
  by (cases X) auto

section \<open>Effects that make no commit\<close>

lemma keeps_commitsI:
  "(\<And>w r w' l. m w = (r, w', l) \<Longrightarrow> commits_of (executed w') = commits_of (executed w))
     \<Longrightarrow> keeps_commits m"
  by (simp add: keeps_commits_def)

lemma keeps_commitsD:
  "keeps_commits m \<Longrightarrow> m w = (r, w', l) \<Longrightarrow> commits_of (executed w') = commits_of (executed w)"
  by (simp add: keeps_commits_def)

lemma keeps_returnIO: "keeps_commits (returnIO x)"
  by (simp add: keeps_commits_def returnIO_def)

lemma keeps_throwIO: "keeps_commits (throwIO e)"
  by (simp add: keeps_commits_def throwIO_def)

lemma keeps_console_print: "keeps_commits (console_print lvl s)"
  by (simp add: keeps_commits_def console_print_def)

lemma keeps_bindIO:
  assumes "keeps_commits m" "\<And>x. keeps_commits (f x)"
  shows "keeps_commits (bindIO m f)"
proof (rule keeps_commitsI)
  fix w r w' l
  assume a: "bindIO m f w = (r, w', l)"
  obtain r1 w1 l1 where m: "m w = (r1, w1, l1)" by (cases "m w") auto
  from keeps_commitsD[OF assms(1) m] have c1: "commits_of (executed w1) = commits_of (executed w)" .
  show "commits_of (executed w') = commits_of (executed w)"
  proof (cases r1)
    case (Inl e)
    with a m c1 show ?thesis by (simp add: bindIO_def)
  next
    case (Inr x)
    obtain r2 w2 l2 where f: "f x w1 = (r2, w2, l2)" by (cases "f x w1") auto
    from keeps_commitsD[OF assms(2) f] a m Inr f c1 show ?thesis by (simp add: bindIO_def)
  qed
qed

lemma keeps_thenIO:
  "keeps_commits m \<Longrightarrow> keeps_commits k \<Longrightarrow> keeps_commits (thenIO m k)"
  by (simp add: thenIO_def keeps_bindIO)

lemma keeps_catchIO:
  assumes "keeps_commits m" "\<And>e. keeps_commits (h e)"
  shows "keeps_commits (catchIO m h)"
proof (rule keeps_commitsI)
  fix w r w' l
  assume a: "catchIO m h w = (r, w', l)"
  obtain r1 w1 l1 where m: "m w = (r1, w1, l1)" by (cases "m w") auto
  from keeps_commitsD[OF assms(1) m] have c1: "commits_of (executed w1) = commits_of (executed w)" .
  show "commits_of (executed w') = commits_of (executed w)"
  proof (cases r1)
    case (Inr x)
    with a m c1 show ?thesis by (simp add: catchIO_def)
  next
    case (Inl e)
    obtain r2 w2 l2 where f: "h e w1 = (r2, w2, l2)" by (cases "h e w1") auto
    from keeps_commitsD[OF assms(2) f] a m Inl f c1 show ?thesis by (simp add: catchIO_def)
  qed
qed

lemma keeps_fs:
  "keeps_commits (fs_mkdir d)" "keeps_commits (fs_writeFile p c)"
  "keeps_commits (fs_writeFile_state p st)" "keeps_commits (fs_readFile_state p)"
  "keeps_commits (JSON_parse_state st)" "keeps_commits (fetch url key)"
  by (auto simp: keeps_commits_def fs_mkdir_def fs_writeFile_def fs_writeFile_state_def
      fs_readFile_state_def JSON_parse_state_def returnIO_def throwIO_def fetch_def
      split: if_splits option.splits stored.splits fetched.splits)

lemma keeps_runCommand:
  "(\<And>msg. cmd \<noteq> GitCommit msg) \<Longrightarrow> keeps_commits (runCommand cmd s)"
  by (cases cmd)
     (auto simp: keeps_commits_def runCommand_def git_def git_effect_def commits_of_append
      split: sum.splits option.splits if_splits)

lemma keeps_process_flow: "keeps_commits (process_flow E inst L f acc)"
  unfolding process_flow_def
  by (auto intro!: keeps_returnIO keeps_bindIO keeps_thenIO keeps_fs keeps_console_print keeps_throwIO
      split: option.splits)

lemma keeps_flows_loop: "keeps_commits (flows_loop E inst L flows acc)"
  by (induction flows arbitrary: acc) (auto intro!: keeps_returnIO keeps_bindIO keeps_process_flow)

lemma keeps_archive_flow: "keeps_commits (archive_flow E inst L k acc)"
  unfolding archive_flow_def
  by (auto intro!: keeps_returnIO keeps_bindIO keeps_thenIO keeps_fs keeps_console_print keeps_throwIO
      keeps_catchIO keeps_runCommand split: option.splits)

lemma keeps_archive_loop: "keeps_commits (archive_loop E inst L cfi ids acc)"
  by (induction ids arbitrary: acc) (auto intro!: keeps_returnIO keeps_bindIO keeps_archive_flow)

lemma keeps_reconcile: "keeps_commits (reconcile E inst flows L)"
  unfolding reconcile_def
  by (auto intro!: keeps_returnIO keeps_bindIO keeps_flows_loop keeps_archive_loop)

lemma keeps_syncInstanceFlows: "keeps_commits (syncInstanceFlows E inst)"
  unfolding syncInstanceFlows_def getLastKnownState_def saveState_def
  by (auto intro!: keeps_returnIO keeps_bindIO keeps_thenIO keeps_fs keeps_console_print keeps_throwIO
      keeps_catchIO keeps_reconcile split: option.splits)

lemma keeps_sync_instance: "keeps_commits (sync_instance E inst acc)"
  unfolding sync_instance_def
  by (auto intro!: keeps_returnIO keeps_bindIO keeps_thenIO keeps_console_print
      keeps_catchIO keeps_syncInstanceFlows)

lemma keeps_instances_loop: "keeps_commits (instances_loop E insts acc)"
  by (induction insts arbitrary: acc) (auto intro!: keeps_returnIO keeps_bindIO keeps_sync_instance)

lemma keeps_push_stage: "keeps_commits (push_stage E)"
  unfolding push_stage_def
  by (auto intro!: keeps_thenIO keeps_console_print keeps_catchIO keeps_runCommand)

lemma commitMessage_spec:
  "c \<noteq> [] \<or> m \<noteq> [] \<Longrightarrow> commitMessage c m = spec_commit_message (length c) (length m)"
  by (auto simp: commitMessage_def spec_commit_message_def)

lemma commits_at_mostD:
  "commits_at_most msg m \<Longrightarrow> m w = (r, w', l) \<Longrightarrow>
     commits_of (executed w') = commits_of (executed w)
     \<or> commits_of (executed w') = commits_of (executed w) @ [msg]"
  by (simp add: commits_at_most_def)

lemma at_most_commit: "commits_at_most msg (runCommand (GitCommit msg) s)"
  by (auto simp: commits_at_most_def runCommand_def git_def git_effect_def commits_of_append
      split: sum.splits option.splits)

lemma at_most_keeps: "keeps_commits m \<Longrightarrow> commits_at_most msg m"
  by (simp add: commits_at_most_def keeps_commits_def)

lemma at_most_then_keeps:
  assumes "commits_at_most msg m" "keeps_commits k"
  shows "commits_at_most msg (thenIO m k)"
  unfolding commits_at_most_def
proof (intro allI impI)
  fix w r w' l
  assume a: "thenIO m k w = (r, w', l)"
  obtain r1 w1 l1 where m: "m w = (r1, w1, l1)" by (cases "m w") auto
  note c1 = commits_at_mostD[OF assms(1) m]
  show "commits_of (executed w') = commits_of (executed w)
        \<or> commits_of (executed w') = commits_of (executed w) @ [msg]"
  proof (cases r1)
    case (Inl e)
    with a m c1 show ?thesis by (simp add: thenIO_def bindIO_def)
  next
    case (Inr x)
    obtain r2 w2 l2 where f: "k w1 = (r2, w2, l2)" by (cases "k w1") auto
    from keeps_commitsD[OF assms(2) f] a m Inr f c1 show ?thesis
      by (simp add: thenIO_def bindIO_def)
  qed
qed

lemma keeps_then_at_most:
  assumes "keeps_commits m" "commits_at_most msg k"
  shows "commits_at_most msg (thenIO m k)"
  unfolding commits_at_most_def
proof (intro allI impI)
  fix w r w' l
  assume a: "thenIO m k w = (r, w', l)"
  obtain r1 w1 l1 where m: "m w = (r1, w1, l1)" by (cases "m w") auto
  note c1 = keeps_commitsD[OF assms(1) m]
  show "commits_of (executed w') = commits_of (executed w)
        \<or> commits_of (executed w') = commits_of (executed w) @ [msg]"
  proof (cases r1)
    case (Inl e)
    with a m c1 show ?thesis by (simp add: thenIO_def bindIO_def)
  next
    case (Inr x)
    obtain r2 w2 l2 where f: "k w1 = (r2, w2, l2)" by (cases "k w1") auto
    from commits_at_mostD[OF assms(2) f] a m Inr f c1 show ?thesis
      by (simp add: thenIO_def bindIO_def)
  qed
qed

lemma at_most_catch_keeps:
  assumes "commits_at_most msg m" "\<And>e. keeps_commits (h e)"
  shows "commits_at_most msg (catchIO m h)"
  unfolding commits_at_most_def
proof (intro allI impI)
  fix w r w' l
  assume a: "catchIO m h w = (r, w', l)"
  obtain r1 w1 l1 where m: "m w = (r1, w1, l1)" by (cases "m w") auto
  note c1 = commits_at_mostD[OF assms(1) m]
  show "commits_of (executed w') = commits_of (executed w)
        \<or> commits_of (executed w') = commits_of (executed w) @ [msg]"
  proof (cases r1)
    case (Inr x)
    with a m c1 show ?thesis by (simp add: catchIO_def)
  next
    case (Inl e)
    obtain r2 w2 l2 where f: "h e w1 = (r2, w2, l2)" by (cases "h e w1") auto
    from keeps_commitsD[OF assms(2) f] a m Inl f c1 show ?thesis
      by (simp add: catchIO_def)
  qed
qed

lemma commit_stage_commits:
  assumes "commit_stage E c m s w = (r, w', l)"
  shows "commits_of (executed w') = commits_of (executed w)
       \<or> (0 < length c + length m
          \<and> commits_of (executed w') = commits_of (executed w) @ [commitMessage c m])"
proof (cases "length c > 0 \<or> length m > 0")
  case False
  with assms show ?thesis by (simp add: commit_stage_def console_print_def)
next
  case True
  have add: "keeps_commits
     (if trim (join '' '' (c @ s)) \<noteq> [] then thenIO (runCommand (GitAdd (join '' '' (c @ s))) False) (returnIO ())
      else returnIO ())"
    by (auto intro!: keeps_thenIO keeps_runCommand keeps_returnIO)
  have cfg: "keeps_commits (runCommand (GitConfigGlobal k v) False)" for k v
    by (rule keeps_runCommand) simp
  have "commits_at_most (commitMessage c m)
     (thenIO (console_print Log ''  -> Committing changes...'')
     (thenIO (runCommand (GitConfigGlobal ''user.name'' ''FlowSync Bot'') False)
     (thenIO (runCommand (GitConfigGlobal ''user.email'' ''bot@flowsync.io'') False)
     (thenIO
        (if trim (join '' '' (c @ s)) \<noteq> [] then thenIO (runCommand (GitAdd (join '' '' (c @ s))) False) (returnIO ())
         else returnIO ())
     (thenIO (runCommand (GitCommit (commitMessage c m)) False) (push_stage E))))))"
    by (rule keeps_then_at_most[OF keeps_console_print
          keeps_then_at_most[OF cfg keeps_then_at_most[OF cfg keeps_then_at_most[OF add
            at_most_then_keeps[OF at_most_commit keeps_push_stage]]]]])
  then have "commits_at_most (commitMessage c m) (commit_stage E c m s)"
    using True unfolding commit_stage_def
    by (simp add: at_most_catch_keeps keeps_console_print del: length_greater_0_conv)
  from commits_at_mostD[OF this assms] True show ?thesis by auto
qed

lemma sync_and_commit_cases:
  assumes "sync_and_commit E instances w = (r, w', l)"
  shows "w' = w
       \<or> (\<exists>e l1. instances_loop E instances ([], [], []) w = (Inl e, w', l1))
       \<or> (\<exists>c m s w1 l1 l2. instances_loop E instances ([], [], []) w = (Inr (c, m, s), w1, l1)
            \<and> commit_stage E c m s w1 = (r, w', l2))"
proof (cases "length instances = 0 \<or> io_fails w (path_join [REPO_PATH E, ''flows''])")
  case True
  with assms show ?thesis
    by (auto simp: sync_and_commit_def console_print_def thenIO_def bindIO_def fs_mkdir_def split: if_splits)
next
  case False
  obtain r1 w1 l1 where il: "instances_loop E instances ([], [], []) w = (r1, w1, l1)"
    by (cases "instances_loop E instances ([], [], []) w") auto
  show ?thesis
  proof (cases r1)
    case (Inl e)
    with assms False il show ?thesis
      by (auto simp: sync_and_commit_def console_print_def thenIO_def bindIO_def fs_mkdir_def)
  next
    case (Inr x)
    obtain c m s where x: "x = (c, m, s)" by (cases x) auto
    obtain r2 w2 l2 where cs: "commit_stage E c m s w1 = (r2, w2, l2)"
      by (cases "commit_stage E c m s w1") auto
    with assms False il Inr x show ?thesis
      by (auto simp: sync_and_commit_def console_print_def thenIO_def bindIO_def fs_mkdir_def)
  qed
qed

lemma keeps_catch_at_most:
  assumes "keeps_commits m" "\<And>e. commits_at_most msg (h e)"
  shows "commits_at_most msg (catchIO m h)"
  unfolding commits_at_most_def
proof (intro allI impI)
  fix w r w' l
  assume a: "catchIO m h w = (r, w', l)"
  obtain r1 w1 l1 where m: "m w = (r1, w1, l1)" by (cases "m w") auto
  note c1 = keeps_commitsD[OF assms(1) m]
  show "commits_of (executed w') = commits_of (executed w)
        \<or> commits_of (executed w') = commits_of (executed w) @ [msg]"
  proof (cases r1)
    case (Inr x)
    with a m c1 show ?thesis by (simp add: catchIO_def)
  next
    case (Inl e)
    obtain r2 w2 l2 where f: "h e w1 = (r2, w2, l2)" by (cases "h e w1") auto
    from commits_at_mostD[OF assms(2) f] a m Inl f c1 show ?thesis
      by (simp add: catchIO_def)
  qed
qed

lemma sync_instance_run:
  "sync_instance E inst acc w =
     (case syncInstanceFlows E inst w of
        (Inr res, w1, l1) \<Rightarrow>
          (Inr (fst acc @ changedFiles res, fst (snd acc) @ movedFiles res,
                if length (changedFiles res) > 0 \<or> length (movedFiles res) > 0
                then snd (snd acc) @ [stateFile res] else snd (snd acc)), w1, l1)
      | (Inl err, w1, l1) \<Rightarrow>
          (Inr acc, w1,
           l1 @ [(Error, ''  -> Failed to sync instance '' @ inst_name inst @ '': ''
                         @ message err)]))"
  by (simp add: sync_instance_def catchIO_def bindIO_def thenIO_def returnIO_def console_print_def
      split: prod.splits sum.splits)

lemma instances_loop_results:
  "instances_loop E insts acc w = (Inr acc', w', l) \<Longrightarrow>
     fst acc' = fst acc @ concat (map changedFiles (sweep_results E insts w))
     \<and> fst (snd acc') = fst (snd acc) @ concat (map movedFiles (sweep_results E insts w))"
proof (induction insts arbitrary: acc w l)
  case Nil
  then show ?case by (simp add: returnIO_def)
next
  case (Cons i rest)
  obtain r1 w1 l1 where s: "syncInstanceFlows E i w = (r1, w1, l1)"
    by (cases "syncInstanceFlows E i w") auto
  show ?case
  proof (cases r1)
    case (Inl e)
    with s Cons.prems obtain l2 where "instances_loop E rest acc w1 = (Inr acc', w', l2)"
      by (auto simp: bindIO_Inr sync_instance_run)
    from Cons.IH[OF this] s Inl show ?thesis by simp
  next
    case (Inr res)
    with s Cons.prems obtain acc1 l2 where
      a: "acc1 = (fst acc @ changedFiles res, fst (snd acc) @ movedFiles res,
                if length (changedFiles res) > 0 \<or> length (movedFiles res) > 0
                then snd (snd acc) @ [stateFile res] else snd (snd acc))" and
      r: "instances_loop E rest acc1 w1 = (Inr acc', w', l2)"
      by (auto simp: bindIO_Inr sync_instance_run)
    from Cons.IH[OF r] a s Inr show ?thesis by simp
  qed
qed

lemma sync_and_commit_commits:
  assumes "sync_and_commit E instances w = (r, w', l)"
  shows "commits_of (executed w') = commits_of (executed w)
       \<or> (0 < files_written E instances w + files_archived E instances w
          \<and> commits_of (executed w') = commits_of (executed w)
               @ [spec_commit_message (files_written E instances w)
                    (files_archived E instances w)])"
proof -
  from sync_and_commit_cases[OF assms] consider
      "w' = w"
    | e l1 where "instances_loop E instances ([], [], []) w = (Inl e, w', l1)"
    | c m s w1 l1 l2 where "instances_loop E instances ([], [], []) w = (Inr (c, m, s), w1, l1)"
        "commit_stage E c m s w1 = (r, w', l2)"
    by blast
  then show ?thesis
  proof cases
    case 1
    then show ?thesis by simp
  next
    case 2
    from keeps_commitsD[OF keeps_instances_loop this] show ?thesis by simp
  next
    case 3
    from keeps_commitsD[OF keeps_instances_loop 3(1)]
    have k: "commits_of (executed w1) = commits_of (executed w)" .
    from instances_loop_results[OF 3(1)]
    have nm: "files_written E instances w = length c" "files_archived E instances w = length m"
      by (simp_all add: files_written_def files_archived_def)
    from commit_stage_commits[OF 3(2)] k nm show ?thesis
      by (auto simp: commitMessage_spec)
  qed
qed

section \<open>The steps before the sweep\<close>

lemma keeps_remoteHasBranch: "keeps_commits (remoteHasBranch r b)"
  unfolding remoteHasBranch_def
  by (auto intro!: keeps_catchIO keeps_thenIO keeps_bindIO keeps_runCommand keeps_returnIO)

lemma keeps_pre_sync: "keeps_commits pre_sync"
  unfolding pre_sync_def
  by (auto intro!: keeps_catchIO keeps_thenIO keeps_bindIO keeps_runCommand keeps_returnIO
      keeps_remoteHasBranch keeps_console_print)

lemma keeps_ensureGitRemote: "keeps_commits (ensureGitRemote E)"
  unfolding ensureGitRemote_def
  by (auto intro!: keeps_catchIO keeps_thenIO keeps_bindIO keeps_runCommand keeps_returnIO
      keeps_console_print)

lemma at_most_ensureGitRepo:
  "commits_at_most ''Add README warning for manual edits'' (ensureGitRepo E)"
proof -
  have rc: "keeps_commits (runCommand GitRevParse s)" "keeps_commits (runCommand GitInit s)"
    "keeps_commits (runCommand GitCheckoutMain s)" "keeps_commits (runCommand (GitConfig k v) s)"
    "keeps_commits (runCommand (GitAdd p) s)" for s k v p
    by (rule keeps_runCommand, simp)+
  show ?thesis
    unfolding ensureGitRepo_def
    by (rule keeps_catch_at_most[OF keeps_thenIO[OF rc(1) keeps_returnIO]
          keeps_then_at_most[OF keeps_console_print
          keeps_then_at_most[OF rc(2)
          keeps_then_at_most[OF rc(3)
          keeps_then_at_most[OF keeps_fs(2)
          keeps_then_at_most[OF rc(4)
          keeps_then_at_most[OF rc(4)
          keeps_then_at_most[OF rc(5)
          at_most_then_keeps[OF at_most_commit keeps_returnIO]]]]]]]]])
qed

lemma ensureGitRepo_inside:
  "inside_work_tree w \<Longrightarrow>
     ensureGitRepo E w = (Inr (), w\<lparr>executed := executed w @ [GitRevParse]\<rparr>, [])"
  by (simp add: ensureGitRepo_def inside_work_tree_def catchIO_def thenIO_def bindIO_def
      returnIO_def runCommand_def git_def git_effect_def)

lemma before_sweep_commits:
  assumes "before_sweep E w = (r, w0, l)"
  shows "commits_of (executed w0) = commits_of (executed w)
       \<or> (\<not> inside_work_tree w
          \<and> commits_of (executed w0)
              = commits_of (executed w) @ [''Add README warning for manual edits''])"
proof -
  have k: "keeps_commits (\<lambda>w. console_print (fst (starting_line w)) (snd (starting_line w)) w)"
    by (simp add: keeps_commits_def console_print_def)
  have rest: "keeps_commits (thenIO (ensureGitRemote E) pre_sync)"
    by (rule keeps_thenIO[OF keeps_ensureGitRemote keeps_pre_sync])
  show ?thesis
  proof (cases "inside_work_tree w")
    case False
    have "commits_at_most ''Add README warning for manual edits'' (before_sweep E)"
      unfolding before_sweep_def
      by (rule keeps_then_at_most[OF k at_most_then_keeps[OF at_most_ensureGitRepo rest]])
    from commits_at_mostD[OF this assms] False show ?thesis by simp
  next
    case True
    have "keeps_commits (\<lambda>w. (Inr (), w\<lparr>executed := executed w @ [GitRevParse]\<rparr>, []))"
      by (simp add: keeps_commits_def commits_of_append)
    from keeps_thenIO[OF k keeps_thenIO[OF this rest]]
    have kk: "keeps_commits
       (thenIO (\<lambda>w. console_print (fst (starting_line w)) (snd (starting_line w)) w)
         (thenIO (\<lambda>w. (Inr (), w\<lparr>executed := executed w @ [GitRevParse]\<rparr>, []))
           (thenIO (ensureGitRemote E) pre_sync)))" .
    have "before_sweep E w =
       (thenIO (\<lambda>w. console_print (fst (starting_line w)) (snd (starting_line w)) w)
         (thenIO (\<lambda>w. (Inr (), w\<lparr>executed := executed w @ [GitRevParse]\<rparr>, []))
           (thenIO (ensureGitRemote E) pre_sync))) w"
      using True
      by (simp add: before_sweep_def thenIO_def bindIO_def console_print_def ensureGitRepo_inside)
    with assms keeps_commitsD[OF kk] show ?thesis by simp
  qed
qed

lemma bindIO_assoc: "bindIO (bindIO m f) g = bindIO m (\<lambda>x. bindIO (f x) g)"
  by (rule ext) (simp add: bindIO_def split: prod.splits sum.splits)

lemma syncFlows_split:
  "syncFlows E =
     bindIO (before_sweep E) (\<lambda>proceed.
       if \<not> proceed then returnIO ()
       else bindIO (load_instances_or_exit E) (sync_and_commit E))"
  by (simp add: syncFlows_def before_sweep_def thenIO_def bindIO_assoc)

lemma load_instances_or_exit_run:
  "load_instances_or_exit E w =
     (case loadInstancesConfig E of
        Inl err \<Rightarrow> (Inl (ProcessExit 1), w, [(Error, ''Error: '' @ message err)])
      | Inr instances \<Rightarrow> (Inr instances, w, []))"
  by (simp add: load_instances_or_exit_def catchIO_def thenIO_def bindIO_def console_print_def
      throwIO_def split: sum.splits)

lemma syncFlows_cases:
  assumes "syncFlows E w = (r, w', l)"
  shows "w' = sweep_start E w
       \<or> (\<exists>l2. sync_and_commit E (enabled_instances E) (sweep_start E w) = (r, w', l2))"
proof -
  obtain rb w0 l0 where b: "before_sweep E w = (rb, w0, l0)"
    by (cases "before_sweep E w") auto
  then have w0: "sweep_start E w = w0" by (simp add: sweep_start_def)
  show ?thesis
  proof (cases rb)
    case (Inl e)
    with assms b w0 show ?thesis by (simp add: syncFlows_split bindIO_def)
  next
    case (Inr proceed)
    show ?thesis
    proof (cases "proceed \<and> (\<exists>instances. loadInstancesConfig E = Inr instances)")
      case False
      with assms b w0 Inr show ?thesis
        by (cases "loadInstancesConfig E"; cases proceed)
           (auto simp: syncFlows_split bindIO_def returnIO_def load_instances_or_exit_run)
    next
      case True
      then obtain instances where i: "loadInstancesConfig E = Inr instances" by blast
      then have e: "enabled_instances E = instances" by (simp add: enabled_instances_def)
      obtain r2 w2 l2 where s: "sync_and_commit E instances w0 = (r2, w2, l2)"
        by (cases "sync_and_commit E instances w0") auto
      with assms b w0 Inr True i e show ?thesis
        by (auto simp: syncFlows_split bindIO_def load_instances_or_exit_run)
    qed
  qed
qed

section \<open>The archival results\<close>

lemma archive_loop_moved:
  "archive_loop E inst L cfi ids acc w = (Inr acc', w', l) \<Longrightarrow>
     \<exists>ks. subseq ks (filter (\<lambda>k. k \<notin> cfi) ids)
          \<and> fst acc' = fst acc @ map (archive_destination E inst L) ks"
proof (induction ids arbitrary: acc w l)
  case Nil
  then show ?case by (simp add: returnIO_def)
next
  case (Cons k ks)
  show ?case
  proof (cases "k \<in> cfi")
    case True
    with Cons.prems have "archive_loop E inst L cfi ks acc w = (Inr acc', w', l)" by simp
    from Cons.IH[OF this] True show ?thesis by simp
  next
    case False
    with Cons.prems obtain acc1 w1 l1 l2 where
      step: "archive_flow E inst L k acc w = (Inr acc1, w1, l1)" and
      rest: "archive_loop E inst L cfi ks acc1 w1 = (Inr acc', w', l2)"
      by (auto simp: bindIO_Inr)
    from Cons.IH[OF rest] obtain js where
      js: "subseq js (filter (\<lambda>k. k \<notin> cfi) ks)"
          "fst acc' = fst acc1 @ map (archive_destination E inst L) js" by blast
    from archive_flow_Inr[OF step] obtain e where
      e: "map_of L k = Some e" and
      alt: "fst acc1 = fst acc @ [destinationPath E inst k e] \<or> fst acc1 = fst acc" by blast
    from alt show ?thesis
    proof
      assume "fst acc1 = fst acc @ [destinationPath E inst k e]"
      with js e False have "subseq (k # js) (filter (\<lambda>k. k \<notin> cfi) (k # ks))
          \<and> fst acc' = fst acc @ map (archive_destination E inst L) (k # js)"
        by (simp add: archive_destination_def)
      then show ?thesis by blast
    next
      assume "fst acc1 = fst acc"
      with js False have "subseq js (filter (\<lambda>k. k \<notin> cfi) (k # ks))
          \<and> fst acc' = fst acc @ map (archive_destination E inst L) js"
        by (simp add: list_emb_Cons)
      then show ?thesis by blast
    qed
  qed
qed

lemma reconcile_moved:
  assumes "reconcile E inst flows L w = (Inr (changed, moved, cur), w', l)"
  shows "\<exists>ks. subseq ks (deleted_ids L flows) \<and> moved = map (archive_destination E inst L) ks"
proof -
  from assms obtain c1 s1 w1 l1 l2 where
    al: "archive_loop E inst L (set (map flow_id flows)) (map fst L) ([], s1) w1
           = (Inr (moved, cur), w', l2)"
    by (auto simp: reconcile_def bindIO_Inr returnIO_def split: prod.splits)
  from archive_loop_moved[OF al] show ?thesis by (simp add: deleted_ids_def)
qed

section \<open>Absolute and relative paths\<close>

lemma join_Cons_hd: "a \<noteq> [] \<Longrightarrow> join sep (a # xs) \<noteq> [] \<and> hd (join sep (a # xs)) = hd a"
  by (cases xs) auto

lemma isAbsolute_normalize: "isAbsolute p \<Longrightarrow> isAbsolute (path_normalize p)"
  unfolding isAbsolute_def path_normalize_def Let_def
  by (cases "normalizeString p (\<not> (p \<noteq> [] \<and> hd p = CHR ''/'')) = []") simp_all

lemma isAbsolute_path_join: "isAbsolute a \<Longrightarrow> isAbsolute (path_join (a # rest))"
proof -
  assume a: "isAbsolute a"
  then have "a \<noteq> []" by (simp add: isAbsolute_def)
  from join_Cons_hd[OF this] a have "isAbsolute (join ''/'' (a # filter (\<lambda>a. a \<noteq> []) rest))"
    by (simp add: isAbsolute_def)
  from isAbsolute_normalize[OF this] \<open>a \<noteq> []\<close> show ?thesis
    by (simp add: path_join_def)
qed

lemma isAbsolute_destinationPath:
  "isAbsolute (REPO_PATH E) \<Longrightarrow> isAbsolute (destinationPath E inst k e)"
  by (simp add: destinationPath_def deletedDir_def sourceTypeDir_def instanceDir_def
      isAbsolute_path_join)

lemma not_isAbsolute_changedFile: "\<not> isAbsolute (changedFile E inst f)"
  by (simp add: changedFile_def isAbsolute_def)

lemma startsWith_append: "startsWith (p @ s) p"
  by (induction p) auto

lemma key_has_entry: "k \<in> fst ` set L \<Longrightarrow> \<exists>e. map_of L k = Some e"
  by (metis domD dom_map_of_conv_image_fst)

lemma subseq_in_dom:
  assumes "subseq ks (deleted_ids L flows)" "k \<in> set ks"
  shows "\<exists>e. map_of L k = Some e"
proof -
  from list_emb_set[OF assms] have "k \<in> set (deleted_ids L flows)"
    by blast
  then have "k \<in> fst ` set L" by (auto simp: deleted_ids_def)
  then show ?thesis by (rule key_has_entry)
qed




section \<open>Flows without a change\<close>

lemma unchanged_step:
  assumes "\<not> change_detected lastState f"
  shows "process_flow E inst lastState f acc w0 =
           (if \<not> truthy (flowData f) then (Inr acc, w0, [])
            else if io_fails w0 (typeDir E inst f)
              then (Inl (IOError (typeDir E inst f)), w0, [])
            else (Inr (fst acc, set_property (flow_id f) (new_entry E f) (snd acc)), w0, []))"
  using assms by (simp add: process_flow_run)

lemma reconcile_still_unchanged:
  assumes rec: "reconcile E inst flows L w = (Inr (changed, moved, cur), w', l)"
      and d: "distinct (map flow_id flows)" and f: "f \<in> set flows"
      and own: "map_of L (flow_id f) = Some e" and u: "st_updatedDate e = updatedDate f"
  shows "\<exists>e'. map_of cur (flow_id f) = Some e' \<and> st_updatedDate e' = updatedDate f"
proof (cases "truthy (flowData f)")
  case True
  from own have "flow_id f \<noteq> ''__proto__'' \<or> map_of L (flow_id f) \<noteq> None" by simp
  from reconcile_entry[OF rec d f True this] show ?thesis
    by (simp add: new_entry_def)
next
  case False
  note R = reconcile_Inr[OF rec]
  have nd: "flow_id f \<notin> set (deleted_ids L flows)" using f by (auto simp: deleted_ids_def)
  have "\<forall>g\<in>set flows. truthy (flowData g) \<longrightarrow> flow_id g \<noteq> flow_id f"
    using d f False by (metis distinct_map inj_on_def)
  from state_after_flows_other[OF this] nd R
  have "map_of cur (flow_id f) = map_of L (flow_id f)" by simp
  with own u show ?thesis by simp
qed

lemma sync_last_state:
  assumes "syncInstanceFlows E inst w = (Inr r, w1, l1)"
      and "remote w (apiUrl inst) (inst_apiKey inst) = Http status body (Some flows)"
  shows "\<exists>changed moved cur wa la.
           reconcile E inst flows (last_state E inst w) w = (Inr (changed, moved, cur), wa, la)
         \<and> r = result_of inst changed moved
         \<and> (last_state E inst w1 = last_state E inst w \<or> last_state E inst w1 = cur)"
proof -
  from sync_Inr[OF assms(1)] assms(2) obtain changed moved cur wa la where
    rec: "reconcile E inst flows (last_state E inst w) w = (Inr (changed, moved, cur), wa, la)" and
    r: "r = result_of inst changed moved" and
    w1: "if changed = [] \<and> moved = [] then w1 = wa
        else \<not> io_fails wa (state_path E (inst_name inst))
           \<and> w1 = wa\<lparr>stateFiles := (stateFiles wa)(state_path E (inst_name inst) \<mapsto> StateJson cur)\<rparr>"
    by auto
  from reconcile_Inr[OF rec] have "stateFiles wa = stateFiles w" by simp
  then have "last_state E inst wa = last_state E inst w" by (simp add: last_state_def)
  with w1 have "last_state E inst w1 = last_state E inst w \<or> last_state E inst w1 = cur"
    by (auto simp: last_state_saved split: if_splits)
  with rec r show ?thesis by blast
qed

lemma test_flow_names:
  "uniqueFileName test_flow = ''Test_Flow_id_c123.json''"
  "safeName test_flow = ''Test_Flow''" "flow_id test_flow = ''abc123''"
  "flowData test_flow = Some ''{\"a\":1}''" "updatedDate test_flow = Some ''T1''"
  by code_simp+

lemma test_flow_type: "flowType E test_flow = ''chatflow''"
proof -
  have "list_all is_ascii ''chatflow''" "map ascii_toLowerCase ''chatflow'' = ''chatflow''"
    by code_simp+
  then show ?thesis
    by (simp add: flowType_def test_flow_def or_else_def toLowerCase_def)
qed

lemma abc123_undefined: "get_property [] ''abc123'' = Undefined"
  by code_simp

section \<open>Runs that complete\<close>

lemma flows_loop_total:
  assumes "io_fails w = iof"
      and "\<forall>f\<in>set flows. truthy (flowData f) \<longrightarrow>
             \<not> iof (typeDir E inst f)
             \<and> (change_detected L f \<longrightarrow>
                  json_indent4 E (or_else (flowData f) []) \<noteq> None
                  \<and> \<not> iof (path_join [typeDir E inst f, uniqueFileName f]))"
  shows "\<exists>acc' w' l. flows_loop E inst L flows acc w = (Inr acc', w', l)"
  using assms
proof (induction flows arbitrary: acc w)
  case Nil
  then show ?case by (simp add: returnIO_def)
next
  case (Cons f fs)
  have "\<exists>acc1 w1 l1. process_flow E inst L f acc w = (Inr acc1, w1, l1) \<and> io_fails w1 = iof"
    using Cons.prems by (auto simp: process_flow_run split: option.splits)
  then obtain acc1 w1 l1 where
    step: "process_flow E inst L f acc w = (Inr acc1, w1, l1)" and io: "io_fails w1 = iof" by blast
  have "\<forall>f\<in>set fs. truthy (flowData f) \<longrightarrow>
             \<not> iof (typeDir E inst f)
             \<and> (change_detected L f \<longrightarrow>
                  json_indent4 E (or_else (flowData f) []) \<noteq> None
                  \<and> \<not> iof (path_join [typeDir E inst f, uniqueFileName f]))"
    using Cons.prems(2) by simp
  from Cons.IH[OF io this] obtain acc' w' l2 where
    "flows_loop E inst L fs acc1 w1 = (Inr acc', w', l2)" by blast
  with step show ?case by (simp add: bindIO_Inr)
qed

lemma reconcile_total:
  assumes "\<forall>f\<in>set flows. truthy (flowData f) \<longrightarrow>
             \<not> io_fails w (typeDir E inst f)
             \<and> (change_detected L f \<longrightarrow>
                  json_indent4 E (or_else (flowData f) []) \<noteq> None
                  \<and> \<not> io_fails w (path_join [typeDir E inst f, uniqueFileName f]))"
  shows "\<exists>changed moved cur w' l. reconcile E inst flows L w = (Inr (changed, moved, cur), w', l)"
proof -
  from flows_loop_total[OF refl assms] obtain c1 s1 w1 l1 where
    fl: "flows_loop E inst L flows ([], L) w = (Inr (c1, s1), w1, l1)" by (metis surj_pair)
  have "set (map fst L) \<subseteq> fst ` set L" by simp
  from archive_loop_total[OF this] obtain m2 s2 w2 l2 where
    "archive_loop E inst L (set (map flow_id flows)) (map fst L) ([], s1) w1 = (Inr (m2, s2), w2, l2)"
    by (metis surj_pair)
  with fl show ?thesis by (simp add: reconcile_def bindIO_def returnIO_def)
qed

section \<open>Letter case\<close>

lemma capital_of_lower:
  "capital_of a b \<Longrightarrow> ascii_toLowerCase a = b \<and> ascii_toLowerCase b = b"
proof -
  assume c: "capital_of a b"
  then have b: "(of_char b :: nat) = of_char a + 32" "65 \<le> (of_char a :: nat)"
    "(of_char a :: nat) \<le> 90"
    by (simp_all add: capital_of_def)
  have "char_of (of_char a + 32 :: nat) = char_of (of_char b :: nat)" using b by simp
  then have "char_of (of_char a + 32 :: nat) = b" by simp
  with b show ?thesis by (simp add: ascii_toLowerCase_def Let_def)
qed

lemma differ_only_in_case_map:
  "list_all2 (\<lambda>a b. a = b \<or> capital_of a b \<or> capital_of b a) s t \<Longrightarrow>
     map ascii_toLowerCase s = map ascii_toLowerCase t"
  by (induction s t rule: list_all2_induct) (auto dest: capital_of_lower)

lemma differ_only_in_case_lower:
  "differ_only_in_case s t \<Longrightarrow> toLowerCase E s = toLowerCase E t"
  by (simp add: differ_only_in_case_def toLowerCase_def differ_only_in_case_map)

lemma differ_only_in_case_Nil: "differ_only_in_case s t \<Longrightarrow> s = [] \<longleftrightarrow> t = []"
  by (auto simp: differ_only_in_case_def)

section \<open>Idempotence\<close>

text \<open>
  Claim C1 at the remote collection of the one flow whose id is \<^verbatim>\<open>__proto__\<close>, in a world
  that has never been synchronised. The first cycle completes with one write. The
  assignment \<^verbatim>\<open>currentState[id] = {...}\<close> has set the prototype of the state object and
  given it no property, so the state that is saved is empty. The second cycle, against the
  same remote collection, completes with the same write again: its list of writes is not
  empty. (For a remote collection with unique ids of which none is \<^verbatim>\<open>__proto__\<close>, the second
  cycle has no write and no archival and leaves the world as it is: that is
  \<open>second_run_unchanged\<close> above.)
\<close>

theorem C1_second_run_writes_again:
  "fst (syncInstanceFlows example_env example_instance proto_world)
     = Inr (result_of example_instance [''flows/inst/chatflow/P_id_to__.json''] [])
   \<and> stateFiles (fst (snd (syncInstanceFlows example_env example_instance proto_world)))
        ''/app/.flow_state_inst.json'' = Some (StateJson [])
   \<and> remote (fst (snd (syncInstanceFlows example_env example_instance proto_world)))
        (apiUrl example_instance) (inst_apiKey example_instance)
       = remote proto_world (apiUrl example_instance) (inst_apiKey example_instance)
   \<and> fst (syncInstanceFlows example_env example_instance
            (fst (snd (syncInstanceFlows example_env example_instance proto_world))))
       = Inr (result_of example_instance [''flows/inst/chatflow/P_id_to__.json''] [])"
  by code_simp

section \<open>Archival of the flows deleted upstream\<close>




section \<open>An archival whose move fails\<close>

text \<open>
  Claim C3 at the world where the flow \<^verbatim>\<open>abc123\<close> has been deleted upstream and its file
  removed by hand, with nothing else to synchronise. The cycle is not aborted and the
  warning is printed, but there is no write and no archival result, so \<^verbatim>\<open>saveState\<close> is not
  called: the state file still has the id after the cycle.
\<close>

theorem C3_state_not_dropped:
  "fst (syncInstanceFlows example_env example_instance orphan_world)
     = Inr (result_of example_instance [] [])
   \<and> could_not_archive_line ''abc123'' test_entry
       \<in> set (snd (snd (syncInstanceFlows example_env example_instance orphan_world)))
   \<and> last_state example_env example_instance orphan_world = [(''abc123'', test_entry)]
   \<and> last_state example_env example_instance
        (fst (snd (syncInstanceFlows example_env example_instance orphan_world)))
       = [(''abc123'', test_entry)]"
  by code_simp

section \<open>Change detection\<close>

text \<open>
  Claim C4. Let the last state record for the id of a flow the \<^verbatim>\<open>updatedDate\<close> that the
  flow has. Then the body of the loop over the flows writes nothing for it, in any world
  and however often the flow occurs in what is fetched: it leaves the world and the list of
  writes as they are. The writes of a reconciliation that completes are those of the flows
  with a payload and a detected change, one for each in their order, and this flow is not
  among them. It stays so cycle after cycle: with unique ids in the remote collection, the
  state after a reconciliation, and the state that a completed \<^verbatim>\<open>syncInstanceFlows\<close> leaves
  for the next cycle, again record the \<^verbatim>\<open>updatedDate\<close> of the flow.
\<close>

theorem C4_unchanged_not_written:
  assumes "map_of lastState (flow_id f) = Some e"
      and "st_updatedDate e = updatedDate f"
  shows "process_flow E inst lastState f acc w0 =
           (if \<not> truthy (flowData f) then (Inr acc, w0, [])
            else if io_fails w0 (typeDir E inst f)
              then (Inl (IOError (typeDir E inst f)), w0, [])
            else (Inr (fst acc, set_property (flow_id f) (new_entry E f) (snd acc)), w0, []))
       \<and> f \<notin> set (written_flows lastState flows)
       \<and> (reconcile E inst flows lastState w = (Inr (changed, moved, currentState), w', l) \<longrightarrow>
            changed = map (changedFile E inst) (written_flows lastState flows)
            \<and> (distinct (map flow_id flows) \<and> f \<in> set flows \<longrightarrow>
                 \<not> change_detected currentState f))
       \<and> (syncInstanceFlows E inst w = (Inr r, w1, l1)
            \<and> remote w (apiUrl inst) (inst_apiKey inst) = Http status body (Some flows)
            \<and> lastState = last_state E inst w
            \<and> distinct (map flow_id flows) \<and> f \<in> set flows \<longrightarrow>
              changedFiles r = map (changedFile E inst) (written_flows lastState flows)
              \<and> \<not> change_detected (last_state E inst w1) f)"
proof -
  have u: "\<not> change_detected lastState f" using assms by (simp add: change_detected_own)
  have 2: "f \<notin> set (written_flows lastState flows)" using u by (simp add: written_flows_def)
  have still: "\<not> change_detected cur f"
    if "reconcile E inst flows lastState wa = (Inr (c, m, cur), wb, la)"
       "distinct (map flow_id flows)" "f \<in> set flows" for c m cur wa wb la
    using reconcile_still_unchanged[OF that assms] by (auto simp: change_detected_own)
  have 3: "changed = map (changedFile E inst) (written_flows lastState flows)
            \<and> (distinct (map flow_id flows) \<and> f \<in> set flows \<longrightarrow>
                 \<not> change_detected currentState f)"
    if rec: "reconcile E inst flows lastState w = (Inr (changed, moved, currentState), w', l)"
    using reconcile_Inr[OF rec] still[OF rec] by blast
  have 4: "changedFiles r = map (changedFile E inst) (written_flows lastState flows)
              \<and> \<not> change_detected (last_state E inst w1) f"
    if s: "syncInstanceFlows E inst w = (Inr r, w1, l1)"
      and rem: "remote w (apiUrl inst) (inst_apiKey inst) = Http status body (Some flows)"
      and ls: "lastState = last_state E inst w"
      and d: "distinct (map flow_id flows)" and f: "f \<in> set flows"
  proof -
    from sync_last_state[OF s rem] obtain changed moved cur wa la where
      rec: "reconcile E inst flows lastState w = (Inr (changed, moved, cur), wa, la)" and
      r: "r = result_of inst changed moved" and
      alt: "last_state E inst w1 = lastState \<or> last_state E inst w1 = cur"
      unfolding ls by blast
    from still[OF rec d f] alt u
    have "\<not> change_detected (last_state E inst w1) f" by auto
    with reconcile_Inr[OF rec] r show ?thesis by (simp add: result_of_def)
  qed
  from unchanged_step[OF u] 2 3 4 show ?thesis by blast
qed

theorem C4_unchanged_not_written_witness:
  "process_flow example_env example_instance [(''abc123'', test_entry)] test_flow
     ([], [(''abc123'', test_entry)]) synced_world
   = (Inr ([], [(''abc123'', test_entry)]), synced_world, [])
   \<and> test_flow \<notin> set (written_flows [(''abc123'', test_entry)] [test_flow])"
proof -
  have a: "map_of [(''abc123'', test_entry)] (flow_id test_flow) = Some test_entry"
    by (simp add: test_flow_def)
  have b: "st_updatedDate test_entry = updatedDate test_flow"
    by (simp add: test_flow_def test_entry_def)
  have c: "truthy (flowData test_flow)" "\<not> io_fails synced_world p" for p
    by (simp_all add: test_flow_def truthy_def synced_world_def)
  have d: "set_property (flow_id test_flow) (new_entry example_env test_flow) [(''abc123'', test_entry)]
           = [(''abc123'', test_entry)]"
    by code_simp
  from C4_unchanged_not_written[OF a b, of example_env example_instance
         "([], [(''abc123'', test_entry)])" synced_world "[test_flow]"] c d
  show ?thesis by simp
qed

section \<open>The scenario of a new flow\<close>

text \<open>
  Claim C5, as amended. For the remote collection of the one flow \<^verbatim>\<open>abc123\<close> named
  \<^verbatim>\<open>Test Flow\<close>, of type \<^verbatim>\<open>chatflow\<close>, with payload \<^verbatim>\<open>{"a":1}\<close> and \<^verbatim>\<open>updatedDate\<close> \<^verbatim>\<open>T1\<close>,
  an empty last state and the instance \<^verbatim>\<open>inst\<close>, the reconciliation writes the reformatted
  payload to \<^verbatim>\<open>flows/inst/chatflow/Test_Flow_id_c123.json\<close> under \<^verbatim>\<open>REPO_PATH\<close> (the last four
  characters of the id are \<^verbatim>\<open>c123\<close>), reports that relative path as its one write, and the
  new state maps \<^verbatim>\<open>abc123\<close> to an entry with \<^verbatim>\<open>updatedDate\<close> \<^verbatim>\<open>T1\<close>.
\<close>

theorem C5_new_flow:
  assumes "inst_name inst = ''inst''"
      and "json_indent4 E ''{\"a\":1}'' = Some formatted"
      and "\<not> io_fails w (path_join [path_join [REPO_PATH E, ''flows'', ''inst''], ''chatflow''])"
      and "\<not> io_fails w
             (path_join [path_join [path_join [REPO_PATH E, ''flows'', ''inst''], ''chatflow''],
                         ''Test_Flow_id_c123.json''])"
  shows "reconcile E inst [test_flow] [] w =
           (Inr ([''flows/inst/chatflow/Test_Flow_id_c123.json''], [],
                 [(''abc123'',
                   \<lparr>st_updatedDate = Some ''T1'', st_name = Some ''Test_Flow'',
                    st_fileName = Some ''Test_Flow_id_c123.json'',
                    st_type = Some ''chatflow''\<rparr>)]),
            w\<lparr>tree := (tree w)
                 (path_join [path_join [path_join [REPO_PATH E, ''flows'', ''inst''], ''chatflow''],
                             ''Test_Flow_id_c123.json''] \<mapsto> formatted)\<rparr>,
            [change_line E test_flow])"
  using assms
  by (simp add: reconcile_def bindIO_def returnIO_def process_flow_run test_flow_names
      test_flow_type abc123_undefined set_property_def
      truthy_def typeDir_def instanceDir_def change_detected_def or_else_def changedFile_def
      new_entry_def)

theorem C5_new_flow_witness:
  "reconcile example_env example_instance [test_flow] [] fresh_world =
     (Inr ([''flows/inst/chatflow/Test_Flow_id_c123.json''], [],
           [(''abc123'',
             \<lparr>st_updatedDate = Some ''T1'', st_name = Some ''Test_Flow'',
              st_fileName = Some ''Test_Flow_id_c123.json'',
              st_type = Some ''chatflow''\<rparr>)]),
      fresh_world\<lparr>tree := (tree fresh_world)
           (path_join [path_join [path_join [REPO_PATH example_env, ''flows'', ''inst''], ''chatflow''],
                       ''Test_Flow_id_c123.json''] \<mapsto> ''{\<newline>    \"a\": 1\<newline>}'')\<rparr>,
      [change_line example_env test_flow])
   \<and> path_join [path_join [path_join [REPO_PATH example_env, ''flows'', ''inst''], ''chatflow''],
                 ''Test_Flow_id_c123.json'']
       = ''/app/flows/inst/chatflow/Test_Flow_id_c123.json''"
proof -
  have a: "inst_name example_instance = ''inst''" by (simp add: example_instance_def)
  have b: "json_indent4 example_env ''{\"a\":1}'' = Some ''{\<newline>    \"a\": 1\<newline>}''"
    by (simp add: example_env_def)
  have c: "\<not> io_fails fresh_world p" for p by (simp add: fresh_world_def)
  have d: "path_join [path_join [path_join [REPO_PATH example_env, ''flows'', ''inst''], ''chatflow''],
                 ''Test_Flow_id_c123.json'']
       = ''/app/flows/inst/chatflow/Test_Flow_id_c123.json''"
    by code_simp
  from C5_new_flow[OF a b c c] d show ?thesis by blast
qed

text \<open>
  The claim as it is written fails: the write does not go to
  \<^verbatim>\<open>flows/inst/chatflow/Test_Flow_id_3123.json\<close>. That path is not the write result, and
  there is no such file in the tree after the reconciliation.
\<close>

theorem C5_counterexample:
  "fst (reconcile example_env example_instance [test_flow] [] fresh_world)
     = Inr ([''flows/inst/chatflow/Test_Flow_id_c123.json''], [], [(''abc123'', test_entry)])
   \<and> ''flows/inst/chatflow/Test_Flow_id_c123.json'' \<noteq> ''flows/inst/chatflow/Test_Flow_id_3123.json''
   \<and> tree (fst (snd (reconcile example_env example_instance [test_flow] [] fresh_world)))
        ''/app/flows/inst/chatflow/Test_Flow_id_3123.json'' = None
   \<and> slice_last 4 ''abc123'' = ''c123''"
  by code_simp

section \<open>The paths of the results\<close>

text \<open>
  Claim C6, as amended. The write results of \<^verbatim>\<open>syncInstanceFlows\<close> are relative paths of
  the form \<^verbatim>\<open>flows/<instance>/<category>/<file>\<close>, one for each flow written, for the caller
  to stage. The archival results are not: each is the destination of a move, a path joined
  onto \<^verbatim>\<open>REPO_PATH\<close>, so it is absolute when \<^verbatim>\<open>REPO_PATH\<close> is (and \<^verbatim>\<open>__dirname\<close> always is).
  The caller does not stage them: what it does with the results of the sweep depends on
  the archival results through their number only.
\<close>

theorem C6_result_paths:
  assumes "syncInstanceFlows E inst w = (Inr r, w', l)"
      and "isAbsolute (REPO_PATH E)"
  shows "(\<exists>status body flows.
            remote w (apiUrl inst) (inst_apiKey inst) = Http status body (Some flows)
            \<and> changedFiles r
                = map (\<lambda>f. ''flows/'' @ inst_name inst @ ''/'' @ flowType E f @ ''/''
                           @ uniqueFileName f)
                    (written_flows (last_state E inst w) flows))
       \<and> (\<forall>p\<in>set (changedFiles r).
            \<not> isAbsolute p \<and> startsWith p (''flows/'' @ inst_name inst @ ''/''))
       \<and> (\<forall>p\<in>set (movedFiles r).
            isAbsolute p
            \<and> (\<exists>k e. map_of (last_state E inst w) k = Some e \<and> p = destinationPath E inst k e))
       \<and> (length allMovedFiles = length others \<longrightarrow>
            commit_stage E allChangedFiles allMovedFiles allStateFiles
              = commit_stage E allChangedFiles others allStateFiles)"
proof -
  from sync_Inr[OF assms(1)] obtain status body flows changed moved cur w1 l1 where
    rem: "remote w (apiUrl inst) (inst_apiKey inst) = Http status body (Some flows)" and
    rec: "reconcile E inst flows (last_state E inst w) w = (Inr (changed, moved, cur), w1, l1)" and
    r: "r = result_of inst changed moved" by blast
  from reconcile_Inr[OF rec] have c: "changed = map (changedFile E inst) (written_flows (last_state E inst w) flows)"
    by simp
  from reconcile_moved[OF rec] obtain ks where
    ks: "subseq ks (deleted_ids (last_state E inst w) flows)"
        "moved = map (archive_destination E inst (last_state E inst w)) ks" by blast
  have cf: "changedFile E inst
            = (\<lambda>f. ''flows/'' @ inst_name inst @ ''/'' @ flowType E f @ ''/'' @ uniqueFileName f)"
    by (rule ext) (simp add: changedFile_def)
  have 0: "\<exists>status body flows.
            remote w (apiUrl inst) (inst_apiKey inst) = Http status body (Some flows)
            \<and> changedFiles r
                = map (\<lambda>f. ''flows/'' @ inst_name inst @ ''/'' @ flowType E f @ ''/''
                           @ uniqueFileName f)
                    (written_flows (last_state E inst w) flows)"
    using rem r c unfolding cf by (auto simp: result_of_def)
  have 1: "\<not> isAbsolute p \<and> startsWith p (''flows/'' @ inst_name inst @ ''/'')"
    if "p \<in> set (changedFiles r)" for p
  proof -
    from that r c obtain f where "p = changedFile E inst f" by (auto simp: result_of_def)
    then show ?thesis
      using startsWith_append[of "''flows/'' @ inst_name inst @ ''/''"]
      by (simp add: not_isAbsolute_changedFile) (simp add: changedFile_def)
  qed
  have 2: "isAbsolute p \<and> (\<exists>k e. map_of (last_state E inst w) k = Some e \<and> p = destinationPath E inst k e)"
    if "p \<in> set (movedFiles r)" for p
  proof -
    from that r ks obtain k where k: "k \<in> set ks" "p = archive_destination E inst (last_state E inst w) k"
      by (auto simp: result_of_def)
    from subseq_in_dom[OF ks(1) k(1)] obtain e where e: "map_of (last_state E inst w) k = Some e" by blast
    with k have "p = destinationPath E inst k e" by (simp add: archive_destination_def)
    with e isAbsolute_destinationPath[OF assms(2)] show ?thesis by blast
  qed
  have 3: "commit_stage E allChangedFiles allMovedFiles allStateFiles
              = commit_stage E allChangedFiles others allStateFiles"
    if "length allMovedFiles = length others"
    using that by (simp add: commit_stage_def commitMessage_def)
  from 0 1 2 3 show ?thesis by blast
qed

theorem C6_result_paths_witness:
  "isAbsolute ''/app/flows/inst/chatflow/deleted/Test_Flow_id_c123.json''
   \<and> (\<exists>k e. map_of (last_state example_env example_instance deleted_world) k = Some e
            \<and> ''/app/flows/inst/chatflow/deleted/Test_Flow_id_c123.json''
                = destinationPath example_env example_instance k e)
   \<and> commit_stage example_env [] [''/app/flows/inst/chatflow/deleted/Test_Flow_id_c123.json''] []
       = commit_stage example_env [] [''Test_Flow_id_c123.json''] []"
proof -
  have a: "fst (syncInstanceFlows example_env example_instance deleted_world)
           = Inr (result_of example_instance []
                    [''/app/flows/inst/chatflow/deleted/Test_Flow_id_c123.json''])"
    by code_simp
  have b: "isAbsolute (REPO_PATH example_env)"
    by (simp add: example_env_def isAbsolute_def)
  from C6_result_paths[OF run_eq[OF a] b,
         of "[''/app/flows/inst/chatflow/deleted/Test_Flow_id_c123.json'']"
            "[''Test_Flow_id_c123.json'']" "[]" "[]"]
  show ?thesis
    by (simp add: result_of_def)
qed

text \<open>
  The claim as it is written fails: when the flow \<^verbatim>\<open>abc123\<close> has been deleted upstream,
  the archival result is the absolute path under \<^verbatim>\<open>/app\<close>.
\<close>

theorem C6_counterexample:
  "fst (syncInstanceFlows example_env example_instance deleted_world)
     = Inr (result_of example_instance []
              [''/app/flows/inst/chatflow/deleted/Test_Flow_id_c123.json''])
   \<and> isAbsolute ''/app/flows/inst/chatflow/deleted/Test_Flow_id_c123.json''"
  by code_simp

section \<open>The commits of a sweep\<close>

text \<open>
  Claim C7, as amended. A run of \<^verbatim>\<open>syncFlows\<close> makes no commit, or one of two commits,
  or both in this order. The first is the commit \<^verbatim>\<open>Add README warning for manual edits\<close>
  of \<^verbatim>\<open>ensureGitRepo\<close>: it is made only where \<^verbatim>\<open>git rev-parse --is-inside-work-tree\<close> fails
  at the start of the run, and whatever the sweep changes. The second is the commit of the
  sweep: it is made only if the runs of \<^verbatim>\<open>syncInstanceFlows\<close> for the enabled instances,
  from the world that the steps before the loop leave, have returned at least one write or
  archival result; with \<open>N\<close> the number of write results and \<open>M\<close> the number of archival
  results that they have returned, its message is \<^verbatim>\<open>Sync: N updated, M archived flow(s)\<close>,
  without the clause whose count is zero.
\<close>

theorem C7_commit_gating:
  assumes "syncFlows E w = (r, w', l)"
  shows "commits_of (executed w') = commits_of (executed w)
       \<or> (0 < files_written E (enabled_instances E) (sweep_start E w)
                + files_archived E (enabled_instances E) (sweep_start E w)
          \<and> commits_of (executed w') = commits_of (executed w)
               @ [spec_commit_message
                    (files_written E (enabled_instances E) (sweep_start E w))
                    (files_archived E (enabled_instances E) (sweep_start E w))])
       \<or> (\<not> inside_work_tree w
          \<and> commits_of (executed w') = commits_of (executed w)
               @ [''Add README warning for manual edits''])
       \<or> (\<not> inside_work_tree w
          \<and> 0 < files_written E (enabled_instances E) (sweep_start E w)
                  + files_archived E (enabled_instances E) (sweep_start E w)
          \<and> commits_of (executed w') = commits_of (executed w)
               @ [''Add README warning for manual edits'',
                  spec_commit_message
                    (files_written E (enabled_instances E) (sweep_start E w))
                    (files_archived E (enabled_instances E) (sweep_start E w))])"
proof -
  have b: "before_sweep E w = (fst (before_sweep E w), sweep_start E w, snd (snd (before_sweep E w)))"
    by (simp add: sweep_start_def)
  note B = before_sweep_commits[OF b]
  from syncFlows_cases[OF assms] show ?thesis
  proof
    assume "w' = sweep_start E w"
    with B show ?thesis by auto
  next
    assume "\<exists>l2. sync_and_commit E (enabled_instances E) (sweep_start E w) = (r, w', l2)"
    then obtain l2 where "sync_and_commit E (enabled_instances E) (sweep_start E w) = (r, w', l2)"
      by blast
    from sync_and_commit_commits[OF this] B show ?thesis by auto
  qed
qed

theorem C7_commit_gating_witness:
  "commits_of (executed (fst (snd (syncFlows example_env fresh_world))))
   = commits_of (executed fresh_world) @ [spec_commit_message 1 0]"
proof -
  have a: "syncFlows example_env fresh_world
           = (fst (syncFlows example_env fresh_world),
              fst (snd (syncFlows example_env fresh_world)),
              snd (snd (syncFlows example_env fresh_world)))"
    by simp
  have b: "files_written example_env (enabled_instances example_env)
             (sweep_start example_env fresh_world) = 1"
          "files_archived example_env (enabled_instances example_env)
             (sweep_start example_env fresh_world) = 0"
    by code_simp+
  have c: "inside_work_tree fresh_world"
    by (simp add: inside_work_tree_def fresh_world_def)
  have d: "commits_of (executed (fst (snd (syncFlows example_env fresh_world))))
           \<noteq> commits_of (executed fresh_world)"
    by code_simp
  from C7_commit_gating[OF a] b c d show ?thesis by simp
qed

text \<open>
  The claim as it is written fails in a directory that is not yet a git repository, with
  a remote instance that has no flow: the sweep has no write and no archival, and a commit
  is made.
\<close>

theorem C7_counterexample:
  "commits_of (executed bare_world) = []
   \<and> commits_of (executed (fst (snd (syncFlows example_env bare_world))))
       = [''Add README warning for manual edits'']
   \<and> files_written example_env (enabled_instances example_env)
       (sweep_start example_env bare_world) = 0
   \<and> files_archived example_env (enabled_instances example_env)
       (sweep_start example_env bare_world) = 0"
  by code_simp

section \<open>Flows without a payload\<close>

text \<open>
  Claim C8. Let a flow of the remote collection have no payload (\<^verbatim>\<open>flowData\<close> absent or
  empty), and let no flow with a payload have its id. The body of the loop over the flows
  skips it: accumulator, world and console stay as they are. In a reconciliation that
  completes it is not among the flows written; its id is not among the deleted ids, of
  which the archival results are the destinations; and the new state has for its id what
  the last state had (the entry as it was, or none).
\<close>

theorem C8_payloadless_skipped:
  assumes "reconcile E inst flows lastState w = (Inr (changed, moved, currentState), w', l)"
      and "f \<in> set flows"
      and "\<not> truthy (flowData f)"
      and "\<forall>g\<in>set flows. truthy (flowData g) \<longrightarrow> flow_id g \<noteq> flow_id f"
  shows "process_flow E inst lastState f acc w0 = (Inr acc, w0, [])
       \<and> changed = map (changedFile E inst) (written_flows lastState flows)
       \<and> f \<notin> set (written_flows lastState flows)
       \<and> flow_id f \<notin> set (deleted_ids lastState flows)
       \<and> (\<exists>ks. subseq ks (deleted_ids lastState flows)
                \<and> moved = map (archive_destination E inst lastState) ks)
       \<and> map_of currentState (flow_id f) = map_of lastState (flow_id f)"
proof -
  note R = reconcile_Inr[OF assms(1)]
  have 1: "process_flow E inst lastState f acc w0 = (Inr acc, w0, [])"
    using assms(3) by (simp add: process_flow_run)
  have 3: "f \<notin> set (written_flows lastState flows)"
    using assms(3) by (simp add: written_flows_def)
  have 4: "flow_id f \<notin> set (deleted_ids lastState flows)"
    using assms(2) by (auto simp: deleted_ids_def)
  from state_after_flows_other[OF assms(4)] 4 R
  have 6: "map_of currentState (flow_id f) = map_of lastState (flow_id f)" by simp
  from 1 R 3 4 reconcile_moved[OF assms(1)] 6 show ?thesis by blast
qed

theorem C8_payloadless_skipped_witness:
  "process_flow example_env example_instance [(''abc123'', test_entry)] empty_flow
     ([], [(''abc123'', test_entry)]) synced_world
   = (Inr ([], [(''abc123'', test_entry)]), synced_world, [])
   \<and> [] = map (changedFile example_env example_instance) (written_flows [(''abc123'', test_entry)] [empty_flow])
   \<and> empty_flow \<notin> set (written_flows [(''abc123'', test_entry)] [empty_flow])
   \<and> flow_id empty_flow \<notin> set (deleted_ids [(''abc123'', test_entry)] [empty_flow])
   \<and> (\<exists>ks. subseq ks (deleted_ids [(''abc123'', test_entry)] [empty_flow])
          \<and> [] = map (archive_destination example_env example_instance [(''abc123'', test_entry)]) ks)
   \<and> map_of [(''abc123'', test_entry)] (flow_id empty_flow)
       = map_of [(''abc123'', test_entry)] (flow_id empty_flow)"
proof -
  have a: "fst (reconcile example_env example_instance [empty_flow] [(''abc123'', test_entry)]
                  synced_world)
           = Inr ([], [], [(''abc123'', test_entry)])"
    by code_simp
  have b: "empty_flow \<in> set [empty_flow]" by simp
  have c: "\<not> truthy (flowData empty_flow)" by (simp add: empty_flow_def truthy_def)
  have d: "\<forall>g\<in>set [empty_flow]. truthy (flowData g) \<longrightarrow> flow_id g \<noteq> flow_id empty_flow"
    using c by simp
  show ?thesis by (rule C8_payloadless_skipped[OF run_eq[OF a] b c d])
qed

section \<open>A missing or corrupt state file\<close>


section \<open>The category of a flow\<close>

text \<open>
  Claim C10, as amended. The category of a flow is its type in lower case,
  \<^verbatim>\<open>uncategorized\<close> when the type is absent (or empty); the lower case of an ASCII string is
  the string with each capital from A to Z replaced by its small letter. The directory
  that is made for a flow with a payload, and in which its file is written, is the
  directory of that name in the directory of the instance; the write result names the same
  category; and the entry that is set for the flow records it as its type. The state has
  that entry for the flow after the step, unless the id is \<^verbatim>\<open>__proto__\<close> and the state had no
  entry for it; and so has the new state of a reconciliation that completes, on a remote
  collection with unique ids. Two flows whose types are ASCII strings that differ only in
  the case of letters, or whose types have the same lower-case form, have the same
  category and the same category directory.
\<close>

theorem C10_category:
  "flowType E f
     = toLowerCase E (case flow_type f of
                        None \<Rightarrow> ''uncategorized''
                      | Some t \<Rightarrow> if t = [] then ''uncategorized'' else t)
   \<and> (list_all is_ascii u \<longrightarrow> toLowerCase E u = map ascii_toLowerCase u)
   \<and> typeDir E inst f = path_join [instanceDir E inst, flowType E f]
   \<and> (truthy (flowData f) \<and> process_flow E inst lastState f acc w = (Inr acc', w', l) \<longrightarrow>
        \<not> io_fails w (path_join [instanceDir E inst, flowType E f])
        \<and> snd acc' = set_property (flow_id f) (new_entry E f) (snd acc)
        \<and> (flow_id f \<noteq> ''__proto__'' \<or> map_of (snd acc) (flow_id f) \<noteq> None \<longrightarrow>
             map_of (snd acc') (flow_id f) = Some (new_entry E f))
        \<and> st_type (new_entry E f) = Some (flowType E f)
        \<and> (change_detected lastState f \<longrightarrow>
             tree w' (path_join [path_join [instanceDir E inst, flowType E f], uniqueFileName f])
               = json_indent4 E (or_else (flowData f) [])
             \<and> json_indent4 E (or_else (flowData f) []) \<noteq> None
             \<and> fst acc' = fst acc @ [''flows/'' @ inst_name inst @ ''/'' @ flowType E f @ ''/''
                                       @ uniqueFileName f]))
   \<and> (reconcile E inst flows lastState w = (Inr (changed, moved, currentState), w1, l1)
        \<and> distinct (map flow_id flows) \<and> f \<in> set flows \<and> truthy (flowData f)
        \<and> (flow_id f \<noteq> ''__proto__'' \<or> map_of lastState (flow_id f) \<noteq> None) \<longrightarrow>
        map_of currentState (flow_id f) = Some (new_entry E f))
   \<and> (flow_type f = Some s \<and> flow_type g = Some t
        \<and> (differ_only_in_case s t \<or> (s \<noteq> [] \<and> t \<noteq> [] \<and> toLowerCase E s = toLowerCase E t))
        \<longrightarrow> flowType E f = flowType E g \<and> typeDir E inst f = typeDir E inst g)"
proof -
  have 1: "flowType E f
     = toLowerCase E (case flow_type f of
                        None \<Rightarrow> ''uncategorized''
                      | Some t \<Rightarrow> if t = [] then ''uncategorized'' else t)"
    by (simp add: flowType_def or_else_def)
  have lc: "list_all is_ascii u \<longrightarrow> toLowerCase E u = map ascii_toLowerCase u"
    by (simp add: toLowerCase_def)
  have 2: "typeDir E inst f = path_join [instanceDir E inst, flowType E f]"
    by (simp add: typeDir_def)
  have 3: "\<not> io_fails w (path_join [instanceDir E inst, flowType E f])
        \<and> snd acc' = set_property (flow_id f) (new_entry E f) (snd acc)
        \<and> (flow_id f \<noteq> ''__proto__'' \<or> map_of (snd acc) (flow_id f) \<noteq> None \<longrightarrow>
             map_of (snd acc') (flow_id f) = Some (new_entry E f))
        \<and> st_type (new_entry E f) = Some (flowType E f)
        \<and> (change_detected lastState f \<longrightarrow>
             tree w' (path_join [path_join [instanceDir E inst, flowType E f], uniqueFileName f])
               = json_indent4 E (or_else (flowData f) [])
             \<and> json_indent4 E (or_else (flowData f) []) \<noteq> None
             \<and> fst acc' = fst acc @ [''flows/'' @ inst_name inst @ ''/'' @ flowType E f @ ''/''
                                       @ uniqueFileName f])"
    if "truthy (flowData f)" "process_flow E inst lastState f acc w = (Inr acc', w', l)"
    using process_flow_Inr[OF that(2)] that(1)
    by (auto simp: typeDir_def map_of_set_property new_entry_def changedFile_def)
  have 4: "map_of currentState (flow_id f) = Some (new_entry E f)"
    if rec: "reconcile E inst flows lastState w = (Inr (changed, moved, currentState), w1, l1)"
      and d: "distinct (map flow_id flows)" and f: "f \<in> set flows" and p: "truthy (flowData f)"
      and o: "flow_id f \<noteq> ''__proto__'' \<or> map_of lastState (flow_id f) \<noteq> None"
    by (rule reconcile_entry[OF rec d f p o])
  have 5: "flowType E f = flowType E g \<and> typeDir E inst f = typeDir E inst g"
    if "flow_type f = Some s" "flow_type g = Some t"
       "differ_only_in_case s t \<or> (s \<noteq> [] \<and> t \<noteq> [] \<and> toLowerCase E s = toLowerCase E t)"
  proof -
    from that(3) have "(s = [] \<longleftrightarrow> t = []) \<and> toLowerCase E s = toLowerCase E t"
      using differ_only_in_case_lower[of s t E] differ_only_in_case_Nil[of s t] by blast
    with that(1,2) show ?thesis
      by (auto simp: flowType_def typeDir_def or_else_def)
  qed
  from 1 lc 2 3 4 5 show ?thesis by blast
qed

theorem C10_category_witness:
  "flowType example_env upper_flow = flowType example_env test_flow
   \<and> typeDir example_env example_instance upper_flow
       = typeDir example_env example_instance test_flow
   \<and> typeDir example_env example_instance upper_flow = ''/app/flows/inst/chatflow''
   \<and> st_type (new_entry example_env upper_flow) = Some (flowType example_env upper_flow)
   \<and> map_of [(''abc123'', test_entry), (''def456'', new_entry example_env upper_flow)] (flow_id upper_flow)
       = Some (new_entry example_env upper_flow)
   \<and> toLowerCase example_env ''ChatFlow'' = map ascii_toLowerCase ''ChatFlow''"
proof -
  have a: "flow_type upper_flow = Some ''ChatFlow''" "flow_type test_flow = Some ''chatflow''"
    by (simp_all add: upper_flow_def test_flow_def)
  have b: "differ_only_in_case ''ChatFlow'' ''chatflow''" by code_simp
  have b': "list_all is_ascii ''ChatFlow''" by code_simp
  have c: "fst (reconcile example_env example_instance [test_flow, upper_flow] [] fresh_world)
           = Inr ([''flows/inst/chatflow/Test_Flow_id_c123.json'',
                   ''flows/inst/chatflow/Other_id_f456.json''], [],
                  [(''abc123'', test_entry), (''def456'', new_entry example_env upper_flow)])"
    by code_simp
  have d: "distinct (map flow_id [test_flow, upper_flow])" "upper_flow \<in> set [test_flow, upper_flow]"
    "truthy (flowData upper_flow)" "flow_id upper_flow \<noteq> ''__proto__''"
    by (simp_all add: upper_flow_def test_flow_def truthy_def)
  have e: "typeDir example_env example_instance test_flow = ''/app/flows/inst/chatflow''"
    by code_simp
  have p: "fst (process_flow example_env example_instance [] upper_flow ([], []) fresh_world)
           = Inr ([''flows/inst/chatflow/Other_id_f456.json''], [(''def456'', new_entry example_env upper_flow)])"
    by code_simp
  note T = C10_category[where f = upper_flow and E = example_env and inst = example_instance
      and lastState = "[]" and acc = "([], [])" and w = fresh_world
      and acc' = "([''flows/inst/chatflow/Other_id_f456.json''], [(''def456'', new_entry example_env upper_flow)])"
      and w' = "fst (snd (process_flow example_env example_instance [] upper_flow ([], []) fresh_world))"
      and l = "snd (snd (process_flow example_env example_instance [] upper_flow ([], []) fresh_world))"
      and flows = "[test_flow, upper_flow]"
      and changed = "[''flows/inst/chatflow/Test_Flow_id_c123.json'',
                      ''flows/inst/chatflow/Other_id_f456.json'']"
      and moved = "[]"
      and currentState = "[(''abc123'', test_entry), (''def456'', new_entry example_env upper_flow)]"
      and ?w1.0 = "fst (snd (reconcile example_env example_instance [test_flow, upper_flow] []
                               fresh_world))"
      and ?l1.0 = "snd (snd (reconcile example_env example_instance [test_flow, upper_flow] []
                               fresh_world))"
      and s = "''ChatFlow''" and g = test_flow and t = "''chatflow''" and u = "''ChatFlow''"]
  from T a b have 1: "flowType example_env upper_flow = flowType example_env test_flow
      \<and> typeDir example_env example_instance upper_flow
          = typeDir example_env example_instance test_flow" by blast
  from T d(3) run_eq[OF p] have 2: "st_type (new_entry example_env upper_flow) = Some (flowType example_env upper_flow)"
    by blast
  from T run_eq[OF c] d have 3:
    "map_of [(''abc123'', test_entry), (''def456'', new_entry example_env upper_flow)] (flow_id upper_flow)
       = Some (new_entry example_env upper_flow)" by blast
  from T b' have 4: "toLowerCase example_env ''ChatFlow'' = map ascii_toLowerCase ''ChatFlow''"
    by blast
  from 1 2 3 4 e show ?thesis by simp
qed

text \<open>
  The claim as it is written fails for the types \<^verbatim>\<open>U+0391 U+03A3\<close> and
  \<^verbatim>\<open>U+03B1 U+03C3\<close>, alpha and sigma in capitals and in small letters, which differ only in
  the case of letters: the categories are \<^verbatim>\<open>U+03B1 U+03C2\<close> and \<^verbatim>\<open>U+03B1 U+03C3\<close>, and the
  two flows are written to different category directories.
\<close>

theorem C10_counterexample:
  "flow_type capital_sigma_flow = Some capital_alpha_sigma
   \<and> flow_type small_sigma_flow = Some small_alpha_sigma
   \<and> flowType greek_env capital_sigma_flow = small_alpha_final_sigma
   \<and> flowType greek_env small_sigma_flow = small_alpha_sigma
   \<and> typeDir greek_env example_instance capital_sigma_flow
       \<noteq> typeDir greek_env example_instance small_sigma_flow
   \<and> fst (reconcile greek_env example_instance [capital_sigma_flow, small_sigma_flow] []
            fresh_world)
       = Inr ([''flows/inst/'' @ small_alpha_final_sigma @ ''/One_id_a111.json'',
               ''flows/inst/'' @ small_alpha_sigma @ ''/Two_id_b222.json''], [],
              [(''aaa111'', new_entry greek_env capital_sigma_flow),
               (''bbb222'', new_entry greek_env small_sigma_flow)])"
  by code_simp

end
